theory Spec2Isabelle
  imports Complex_Main "HOL-Library.Multiset"
begin

section \<open>The filter designer of \<open>mkfilter.py\<close>\<close>

text \<open>
  The numeric model is exact: a Python/numpy \<open>float\<close> is a \<^typ>\<open>real\<close> and a numpy
  \<open>complex\<close> is a \<^typ>\<open>complex\<close>. Rounding and the IEEE values \<open>inf\<close> and \<open>nan\<close> are
  outside the model, with one exception: where Python raises \<open>OverflowError\<close> instead
  of returning \<open>inf\<close>, the model raises it too. Where numpy would divide by zero,
  HOL's \<open>x / 0 = 0\<close> is not what the program computes, and no statement below relies
  on such a value.
\<close>

subsection \<open>Constants and data\<close>

definition PI :: real where
  "PI = pi"

definition TWOPI :: real where
  "TWOPI = 2 * PI"

definition MAXORDER :: int where
  "MAXORDER = 10"

text \<open>
  The exceptions the design can raise: the two \<open>ValueError\<close>s of the Chebyshev branch
  (told apart by their message, which also shows the offending value), the
  \<open>IndexError\<close> of a read past the end of the Bessel table, and the \<open>OverflowError\<close>
  of Python's own float arithmetic.
\<close>

datatype value_error = RippleNotNegative | YNotPositive

datatype error = ValueError value_error | IndexError | OverflowError

text \<open>
  Two operations of Python's \<open>float\<close> raise instead of returning \<open>inf\<close>: the conversion
  of an \<open>int\<close> that is mixed with a \<open>float\<close> in \<open>*\<close>, \<open>+\<close> or \<open>/\<close>, and the power \<open>**\<close>.
  Both raise \<open>OverflowError\<close> when the result would round to infinity, that is from
  magnitude \<open>2^1024 - 2^970\<close> on (for the power, up to the rounding of the C library).
  numpy's operations warn and return \<open>inf\<close> or \<open>nan\<close> instead; they raise nothing.
\<close>

definition float_overflow :: real where
  "float_overflow = 2 ^ 1024 - 2 ^ 970"

definition py_float :: "int \<Rightarrow> error + real" where
  "py_float i =
     (if float_overflow \<le> \<bar>real_of_int i\<bar> then Inl OverflowError else Inr (real_of_int i))"

definition py_pow :: "real \<Rightarrow> real \<Rightarrow> error + real" where
  "py_pow b x = (if float_overflow \<le> b powr x then Inl OverflowError else Inr (b powr x))"

record PoleZeroRep =
  poles :: "complex list"
  zeros :: "complex list"

definition PoleZeroRep_init :: PoleZeroRep where
  "PoleZeroRep_init = \<lparr>poles = [], zeros = []\<rparr>"

text \<open>The table is a 30 by 1 array; \<open>BESSEL_POLES[p][0]\<close> reads row \<open>p\<close>.\<close>

definition BESSEL_POLES :: "complex list list" where
  "BESSEL_POLES = [
      [Complex (-1) 0], [Complex (-1.10160133059) 0.636009824757],
      [Complex (-1.32267579991) 0], [Complex (-1.04740916101) 0.999264436281],
      [Complex (-1.37006783055) 0.410249717494], [Complex (-0.99520876435) 1.25710573945],
      [Complex (-1.50231627145) 0], [Complex (-1.38087732586) 0.717909587627],
      [Complex (-0.957676548563) 1.47112432073], [Complex (-1.57149040362) 0.320896374221],
      [Complex (-1.3818580976) 0.971471890712], [Complex (-0.930656522947) 1.66186326894],
      [Complex (-1.68436817927) 0], [Complex (-1.61203876622) 0.589244506931],
      [Complex (-1.3789032168) 1.1915667778], [Complex (-0.909867780623) 1.83645135304],
      [Complex (-1.7574084004) 0.272867575103], [Complex (-1.63693941813) 0.822795625139],
      [Complex (-1.37384121764) 1.38835657588], [Complex (-0.892869718847) 1.99832584364],
      [Complex (-1.85660050123) 0], [Complex (-1.80717053496) 0.512383730575],
      [Complex (-1.65239648458) 1.03138956698], [Complex (-1.36758830979) 1.56773371224],
      [Complex (-0.878399276161) 2.14980052431], [Complex (-1.92761969145) 0.241623471082],
      [Complex (-1.84219624443) 0.727257597722], [Complex (-1.6618102414) 1.22110021857],
      [Complex (-1.36069227838) 1.73350574267], [Complex (-0.865756901707) 2.29260483098]]"

text \<open>
  The fields of a \<open>MkFilter\<close> object. \<open>filter_type\<close>, \<open>band_type\<close>, \<open>xcoeffs\<close>
  and \<open>ycoeffs\<close> are \<open>None\<close> until \<open>design\<close> sets them.
\<close>

record MkFilter =
  splane :: PoleZeroRep
  zplane :: PoleZeroRep
  order :: int
  raw_alpha1 :: real
  raw_alpha2 :: real
  warped_alpha1 :: real
  warped_alpha2 :: real
  chebrip :: real
  filter_type :: "string option"
  band_type :: "string option"
  use_blt :: bool
  prewarp :: bool
  xcoeffs :: "real list option"
  ycoeffs :: "real list option"
  dc_gain :: complex
  fc_gain :: complex
  hf_gain :: complex

definition MkFilter_init :: MkFilter where
  "MkFilter_init =
     \<lparr>splane = PoleZeroRep_init, zplane = PoleZeroRep_init, order = 0,
      raw_alpha1 = 0, raw_alpha2 = 0, warped_alpha1 = 0, warped_alpha2 = 0,
      chebrip = 0, filter_type = None, band_type = None, use_blt = True, prewarp = True,
      xcoeffs = None, ycoeffs = None, dc_gain = 0, fc_gain = 0, hf_gain = 0\<rparr>"

subsection \<open>Prototype poles (\<open>_compute_s_plane\<close>)\<close>

text \<open>
  The Bessel loop \<open>for i in range(self.order // 2)\<close>: \<open>n\<close> passes remain, \<open>p\<close> is the
  table index. \<open>p\<close> is never negative, so a read fails exactly when \<open>p\<close> is past the
  end of the table.
\<close>

fun bessel_loop :: "nat \<Rightarrow> nat \<Rightarrow> complex list \<Rightarrow> error + complex list" where
  "bessel_loop 0 p ps = Inr ps"
| "bessel_loop (Suc n) p ps =
     (if p < length BESSEL_POLES
      then let pole = BESSEL_POLES ! p ! 0 in bessel_loop n (p + 1) (ps @ [pole, cnj pole])
      else Inl IndexError)"

definition bessel_poles :: "int \<Rightarrow> complex list \<Rightarrow> error + complex list" where
  "bessel_poles ord ps =
     (let p = nat ((ord * ord) div 4) in
      if odd ord
      then (if p < length BESSEL_POLES
            then bessel_loop (nat (ord div 2)) (p + 1) (ps @ [BESSEL_POLES ! p ! 0])
            else Inl IndexError)
      else bessel_loop (nat (ord div 2)) p ps)"

text \<open>
  The Butterworth loop \<open>for i in range(2 * self.order)\<close>. \<open>theta\<close> is only computed
  inside the loop, which is empty unless the order is positive. \<open>i * PI\<close> and
  \<open>i + 0.5\<close> convert the \<open>int\<close> \<open>i\<close>, and the division converts the \<open>int\<close>
  \<open>self.order\<close>; \<open>PI\<close> is a Python \<open>float\<close>.
\<close>

definition butterworth_theta :: "int \<Rightarrow> nat \<Rightarrow> error + real" where
  "butterworth_theta ord i =
     (case py_float (int i) of
        Inl e \<Rightarrow> Inl e
      | Inr fi \<Rightarrow>
          (case py_float ord of
             Inl e \<Rightarrow> Inl e
           | Inr ford \<Rightarrow>
               Inr (if odd ord then (fi * PI) / ford else ((fi + 0.5) * PI) / ford)))"

definition butterworth_loop :: "int \<Rightarrow> complex list \<Rightarrow> error + complex list" where
  "butterworth_loop ord ps =
     fold (\<lambda>i acc. case acc of
                     Inl e \<Rightarrow> Inl e
                   | Inr ps \<Rightarrow>
                       (case butterworth_theta ord i of
                          Inl e \<Rightarrow> Inl e
                        | Inr theta \<Rightarrow>
                            let pole = exp (\<i> * of_real theta)
                            in Inr (if Re pole < 0 then ps @ [pole] else ps)))
          [0..<nat (2 * ord)] (Inr ps)"

text \<open>
  The Chebyshev warp factor \<open>y\<close> of lines 157 to 159, for a nonzero order: the power is
  Python's, the square root, the inverse hyperbolic sine and the division are numpy's,
  and the division converts the \<open>int\<close> \<open>self.order\<close>.
\<close>

definition chebyshev_y :: "real \<Rightarrow> int \<Rightarrow> error + real" where
  "chebyshev_y rip_db ord =
     (case py_pow 10 (- rip_db / 10) of
        Inl e \<Rightarrow> Inl e
      | Inr rip \<Rightarrow>
          let eps = sqrt (rip - 1)
          in (case py_float ord of
                Inl e \<Rightarrow> Inl e
              | Inr ford \<Rightarrow> Inr (arsinh (1 / eps) / ford)))"

text \<open>
  \<open>_compute_s_plane\<close> returns the exception raised, if any, with the object as the
  exception leaves it: an exception of either loop comes before
  \<open>self.splane.poles\<close> is assigned, an exception of the Chebyshev branch after.

  With a negative ripple \<open>arcsinh(1.0 / eps)\<close> is positive. For order 0 numpy divides
  it by zero to \<open>+inf\<close> (a warning, not an exception), the test \<open>y <= 0.0\<close> is false and
  the pole array that is scaled is the empty one (\<open>compute_s_plane_order_0\<close>); the
  model writes this case out, since \<open>x / 0 = 0\<close> in HOL.
\<close>

definition compute_s_plane :: "MkFilter \<Rightarrow> error option \<times> MkFilter" where
  "compute_s_plane self =
     (case (if filter_type self = Some ''Be'' then bessel_poles (order self) [] else Inr []) of
        Inl e \<Rightarrow> (Some e, self)
      | Inr ps \<Rightarrow>
          (case (if filter_type self = Some ''Bu'' \<or> filter_type self = Some ''Ch''
                 then butterworth_loop (order self) ps else Inr ps) of
             Inl e \<Rightarrow> (Some e, self)
           | Inr ps \<Rightarrow>
               let self = self\<lparr>splane := (splane self)\<lparr>poles := ps\<rparr>\<rparr>
               in if filter_type self = Some ''Ch''
                  then (if chebrip self \<ge> 0
                        then (Some (ValueError RippleNotNegative), self)
                        else if order self = 0
                        then (case py_pow 10 (- chebrip self / 10) of
                                Inl e \<Rightarrow> (Some e, self)
                              | Inr rip \<Rightarrow> (None, self))
                        else (case chebyshev_y (chebrip self) (order self) of
                                Inl e \<Rightarrow> (Some e, self)
                              | Inr y \<Rightarrow>
                                  if y \<le> 0
                                  then (Some (ValueError YNotPositive), self)
                                  else (None, self\<lparr>splane := (splane self)\<lparr>poles :=
                                          map (\<lambda>p. of_real (Re p * sinh y)
                                                   + \<i> * of_real (Im p * cosh y))
                                              (poles (splane self))\<rparr>\<rparr>)))
                  else (None, self)))"

subsection \<open>Pre-warping (\<open>_prewarp_frequencies\<close>)\<close>

definition prewarp_frequencies :: "MkFilter \<Rightarrow> MkFilter" where
  "prewarp_frequencies self =
     (if \<not> prewarp self \<or> \<not> use_blt self
      then self\<lparr>warped_alpha1 := raw_alpha1 self, warped_alpha2 := raw_alpha2 self\<rparr>
      else self\<lparr>warped_alpha1 := tan (PI * raw_alpha1 self) / PI,
                warped_alpha2 := tan (PI * raw_alpha2 self) / PI\<rparr>)"

subsection \<open>Band transformation (\<open>_normalize\<close>)\<close>

text \<open>The two poles that one prototype pole contributes, given its \<open>hba\<close>.\<close>

definition band_pair :: "real \<Rightarrow> complex \<Rightarrow> complex list" where
  "band_pair w0 hba =
     (let temp = csqrt (1 - (of_real w0 / hba)\<^sup>2)
      in [hba * (1 + temp), hba * (1 - temp)])"

definition normalize_splane :: "MkFilter \<Rightarrow> MkFilter" where
  "normalize_splane self =
     (let w1 = TWOPI * warped_alpha1 self;
          w2 = TWOPI * warped_alpha2 self
      in if band_type self = Some ''Lp''
         then self\<lparr>splane := (splane self)
                \<lparr>poles := map (\<lambda>p. p * of_real w1) (poles (splane self)), zeros := []\<rparr>\<rparr>
         else if band_type self = Some ''Hp''
         then let ps = map (\<lambda>p. of_real w1 / p) (poles (splane self))
              in self\<lparr>splane := (splane self)\<lparr>poles := ps, zeros := replicate (length ps) 0\<rparr>\<rparr>
         else if band_type self = Some ''Bp''
         then let w0 = sqrt (w1 * w2);
                  bw = w2 - w1;
                  new_poles = fold (\<lambda>pole new_poles.
                                      let hba = 0.5 * pole * of_real bw
                                      in new_poles @ band_pair w0 hba)
                                (poles (splane self)) []
              in self\<lparr>splane := (splane self)
                     \<lparr>poles := new_poles, zeros := replicate (length new_poles div 2) 0\<rparr>\<rparr>
         else if band_type self = Some ''Bs''
         then let w0 = sqrt (w1 * w2);
                  bw = w2 - w1;
                  (new_poles, new_zeros) =
                     fold (\<lambda>pole (new_poles, new_zeros).
                             let hba = 0.5 * of_real bw / pole
                             in (new_poles @ band_pair w0 hba,
                                 new_zeros @ [\<i> * of_real w0, - \<i> * of_real w0]))
                          (poles (splane self)) ([], [])
              in self\<lparr>splane := (splane self)\<lparr>poles := new_poles, zeros := new_zeros\<rparr>\<rparr>
         else self)"

subsection \<open>Mapping to the z-plane (\<open>_compute_z_blt\<close>, \<open>_compute_z_mzt\<close>)\<close>

text \<open>The padding loop \<open>while len(zeros) < len(poles): zeros = append(zeros, -1.0)\<close>.\<close>

function blt_pad :: "complex list \<Rightarrow> nat \<Rightarrow> complex list" where
  "blt_pad zs npoles = (if length zs < npoles then blt_pad (zs @ [- 1]) npoles else zs)"
  by pat_completeness auto
termination
  by (relation "measure (\<lambda>(zs, npoles). npoles - length zs)") auto

declare blt_pad.simps [simp del]

definition compute_z_blt :: "MkFilter \<Rightarrow> MkFilter" where
  "compute_z_blt self =
     (let self = self\<lparr>zplane := (zplane self)
                   \<lparr>poles := map (\<lambda>s. (2 + s) / (2 - s)) (poles (splane self))\<rparr>\<rparr>;
          self = (if length (zeros (splane self)) > 0
                  then self\<lparr>zplane := (zplane self)
                         \<lparr>zeros := map (\<lambda>s. (2 + s) / (2 - s)) (zeros (splane self))\<rparr>\<rparr>
                  else self\<lparr>zplane := (zplane self)\<lparr>zeros := []\<rparr>\<rparr>)
      in self\<lparr>zplane := (zplane self)
              \<lparr>zeros := blt_pad (zeros (zplane self)) (length (poles (zplane self)))\<rparr>\<rparr>)"

definition compute_z_mzt :: "MkFilter \<Rightarrow> MkFilter" where
  "compute_z_mzt self =
     (let self = self\<lparr>zplane := (zplane self)\<lparr>poles := map exp (poles (splane self))\<rparr>\<rparr>
      in if length (zeros (splane self)) > 0
         then self\<lparr>zplane := (zplane self)\<lparr>zeros := map exp (zeros (splane self))\<rparr>\<rparr>
         else self\<lparr>zplane := (zplane self)\<lparr>zeros := []\<rparr>\<rparr>)"

subsection \<open>Polynomial expansion (\<open>_expand\<close>, \<open>_evaluate\<close>, \<open>_expand_poly\<close>)\<close>

text \<open>
  One pass of the loop body of \<open>_expand\<close> (multiply by \<open>z - root\<close>):
  \<^verbatim>\<open>
  new_coeffs = np.zeros(len(coeffs) + 1, dtype=complex)
  new_coeffs[0] = -root * coeffs[0]
  for i in range(1, len(coeffs)):
      new_coeffs[i] = coeffs[i-1] - root * coeffs[i]
  new_coeffs[-1] = coeffs[-1]
  \<close>
  \<open>coeffs\<close> is never empty here (it starts as \<open>[1.0]\<close> and grows by one per pass,
  see \<open>expand_loop_length\<close>), so \<open>coeffs[0]\<close> and \<open>coeffs[-1]\<close> are in range, and
  index \<open>-1\<close> of \<open>new_coeffs\<close> is index \<open>len(coeffs)\<close>.
\<close>

definition expand_step :: "complex \<Rightarrow> complex list \<Rightarrow> complex list" where
  "expand_step rt coeffs =
     (let n = length coeffs;
          new_coeffs = replicate (n + 1) 0;
          new_coeffs = new_coeffs[0 := - rt * coeffs ! 0];
          new_coeffs = fold (\<lambda>i new. new[i := coeffs ! (i - 1) - rt * coeffs ! i])
                         [1..<n] new_coeffs;
          new_coeffs = new_coeffs[n := coeffs ! (n - 1)]
      in new_coeffs)"

text \<open>The \<open>for root in roots\<close> loop, threading \<open>coeffs\<close>.\<close>

fun expand_loop :: "complex list \<Rightarrow> complex list \<Rightarrow> complex list" where
  "expand_loop [] coeffs = coeffs"
| "expand_loop (rt # roots) coeffs = expand_loop roots (expand_step rt coeffs)"

definition expand :: "complex list \<Rightarrow> complex list" where
  "expand roots = (if length roots = 0 then [1] else expand_loop roots [1])"

definition evaluate :: "complex list \<Rightarrow> complex list \<Rightarrow> complex \<Rightarrow> complex" where
  "evaluate topcoeffs botcoeffs z =
     (let top = sum_list (map (\<lambda>(i, c). c * z ^ i) (enumerate 0 topcoeffs));
          bot = sum_list (map (\<lambda>(i, c). c * z ^ i) (enumerate 0 botcoeffs))
      in top / bot)"

text \<open>
  \<open>botcoeffs[-1]\<close> is the last element of a vector that is never empty
  (\<open>expand_nonempty\<close>).
\<close>

definition expand_poly :: "MkFilter \<Rightarrow> MkFilter" where
  "expand_poly self =
     (let topcoeffs = expand (zeros (zplane self));
          botcoeffs = expand (poles (zplane self));
          self = self\<lparr>dc_gain := evaluate topcoeffs botcoeffs 1\<rparr>;
          theta = TWOPI * 0.5 * (raw_alpha1 self + raw_alpha2 self);
          self = self\<lparr>fc_gain := evaluate topcoeffs botcoeffs (exp (\<i> * of_real theta))\<rparr>;
          self = self\<lparr>hf_gain := evaluate topcoeffs botcoeffs (- 1)\<rparr>;
          self = self\<lparr>xcoeffs := Some (map (\<lambda>c. Re c / Re (last botcoeffs)) topcoeffs)\<rparr>
      in self\<lparr>ycoeffs := Some (map (\<lambda>c. - Re c / Re (last botcoeffs)) botcoeffs)\<rparr>)"

subsection \<open>The design pipeline (\<open>design\<close>, \<open>get_gain\<close>)\<close>

text \<open>
  \<open>design\<close> takes the object and the arguments and returns what the call returns (the
  exception raised, or the pair \<open>(xcoeffs, ycoeffs)\<close>) with the object as the call
  leaves it.
\<close>

definition design ::
  "MkFilter \<Rightarrow> string \<Rightarrow> string \<Rightarrow> int \<Rightarrow> real \<Rightarrow> real option \<Rightarrow> real \<Rightarrow> bool \<Rightarrow> bool
     \<Rightarrow> (error + real list \<times> real list) \<times> MkFilter" where
  "design self ftype btype ord alpha1 alpha2 rip blt pw =
     (let self = self\<lparr>filter_type := Some ftype, band_type := Some btype, order := ord,
                       raw_alpha1 := alpha1,
                       raw_alpha2 := (case alpha2 of Some a \<Rightarrow> a | None \<Rightarrow> alpha1),
                       chebrip := rip, use_blt := blt, prewarp := pw\<rparr>
      in case compute_s_plane self of
           (Some e, self) \<Rightarrow> (Inl e, self)
         | (None, self) \<Rightarrow>
             let self = prewarp_frequencies self;
                 self = normalize_splane self;
                 self = (if blt then compute_z_blt self else compute_z_mzt self);
                 self = expand_poly self
             in (Inr (the (xcoeffs self), the (ycoeffs self)), self))"

definition get_gain :: "MkFilter \<Rightarrow> real" where
  "get_gain self =
     (if band_type self = Some ''Lp'' then cmod (dc_gain self)
      else if band_type self = Some ''Hp'' then cmod (hf_gain self)
      else if band_type self = Some ''Bp'' \<or> band_type self = Some ''Ap''
      then cmod (fc_gain self)
      else if band_type self = Some ''Bs'' then cmod (csqrt (dc_gain self * hf_gain self))
      else 1)"

subsection \<open>The command line (\<open>main\<close>)\<close>

text \<open>
  The parsed arguments that reach the validation and the call of \<open>design\<close>. The family
  options form a required, mutually exclusive group: \<open>-Bu\<close>, \<open>-Be\<close> or \<open>-Ch RIPPLE\<close>.
  The output options and the printing that follows a successful design are left out.
\<close>

datatype family_arg = Arg_Bu | Arg_Be | Arg_Ch real

record Args =
  arg_family :: family_arg
  arg_band_type :: string
  arg_order :: int
  arg_alpha :: "real list"
  arg_use_blt :: bool
  arg_prewarp :: bool

text \<open>
  What \<open>main\<close> does: it rejects the arguments with a message (return 1, before any
  filter object exists), or calls \<open>design\<close> on a fresh object and either catches its
  exception (return 1) or goes on to print the designed filter (return 0 once it is
  printed).
\<close>

datatype main_result = Rejected string | Failed error | Designed MkFilter

definition main :: "Args \<Rightarrow> main_result" where
  "main args =
     (if arg_order args < 1 \<or> arg_order args > MAXORDER
      then Rejected ''Error: order must be between 1 and 10''
      else if (arg_band_type args = ''Bp'' \<or> arg_band_type args = ''Bs'')
              \<and> length (arg_alpha args) \<noteq> 2
      then Rejected (''Error: '' @ arg_band_type args @ '' requires two alpha values'')
      else if (arg_band_type args = ''Lp'' \<or> arg_band_type args = ''Hp'')
              \<and> length (arg_alpha args) \<noteq> 1
      then Rejected (''Error: '' @ arg_band_type args @ '' requires one alpha value'')
      else let (ftype, rip) = (case arg_family args of
                                 Arg_Ch r \<Rightarrow> (''Ch'', r)
                               | Arg_Bu \<Rightarrow> (''Bu'', - 1)
                               | Arg_Be \<Rightarrow> (''Be'', - 1));
               mkf = MkFilter_init
           in case arg_alpha args of
                [] \<Rightarrow> Failed IndexError
              | alpha1 # rest \<Rightarrow>
                  let alpha2 = (if length (arg_alpha args) > 1
                                then Some (arg_alpha args ! 1) else None)
                  in case design mkf ftype (arg_band_type args) (arg_order args) alpha1 alpha2
                            rip (arg_use_blt args) (arg_prewarp args) of
                       (Inl e, mkf) \<Rightarrow> Failed e
                     | (Inr r, mkf) \<Rightarrow> Designed mkf)"

definition exit_status :: "main_result \<Rightarrow> int" where
  "exit_status r = (case r of Designed mkf \<Rightarrow> 0 | Rejected msg \<Rightarrow> 1 | Failed e \<Rightarrow> 1)"

subsection \<open>Auxiliary definitions for the proofs\<close>

text \<open>
  The angle of the Butterworth loop and the poles it keeps when no conversion
  overflows; \<open>butterworth_loop_Inr\<close> relates them to the loop.
\<close>

definition theta_exact :: "int \<Rightarrow> nat \<Rightarrow> real" where
  "theta_exact ord i =
     (if odd ord then (real i * PI) / of_int ord else ((real i + 0.5) * PI) / of_int ord)"

definition butterworth_exact :: "int \<Rightarrow> complex list \<Rightarrow> complex list" where
  "butterworth_exact ord ps =
     fold (\<lambda>i ps. let theta = theta_exact ord i;
                      pole = exp (\<i> * of_real theta)
                  in if Re pole < 0 then ps @ [pole] else ps)
          [0..<nat (2 * ord)] ps"

text \<open>Coefficient \<open>i\<close> of a vector read as a polynomial: zero outside the vector.\<close>

definition coeff_at :: "complex list \<Rightarrow> int \<Rightarrow> complex" where
  "coeff_at cs i = (if 0 \<le> i \<and> i < int (length cs) then cs ! nat i else 0)"

section \<open>Properties of the polynomial expansion\<close>

lemma fold_update_length:
  "length (fold (\<lambda>i new. new[i := f i]) is xs) = length xs"
  by (induction "is" arbitrary: xs) simp_all

lemma fold_update_nth:
  assumes "distinct is" "k < length xs"
  shows "fold (\<lambda>i new. new[i := f i]) is xs ! k = (if k \<in> set is then f k else xs ! k)"
  using assms
proof (induction "is" arbitrary: xs)
  case Nil
  then show ?case by simp
next
  case (Cons j js)
  then show ?case by (auto simp: nth_list_update)
qed

lemma expand_step_length [simp]: "length (expand_step rt coeffs) = length coeffs + 1"
  by (simp add: expand_step_def Let_def fold_update_length)

lemma expand_step_nth:
  assumes "coeffs \<noteq> []" "k \<le> length coeffs"
  shows "expand_step rt coeffs ! k =
           (if k = 0 then - rt * coeffs ! 0
            else if k = length coeffs then coeffs ! (k - 1)
            else coeffs ! (k - 1) - rt * coeffs ! k)"
proof -
  have n: "0 < length coeffs" using assms by simp
  show ?thesis
    using assms n
    by (auto simp: expand_step_def Let_def nth_list_update fold_update_length fold_update_nth)
qed

lemma coeff_at_expand_step:
  assumes "coeffs \<noteq> []"
  shows "coeff_at (expand_step rt coeffs) i = coeff_at coeffs (i - 1) - rt * coeff_at coeffs i"
proof -
  have n: "0 < length coeffs" using assms by simp
  consider "i < 0" | "i = 0" | "0 < i" "i < int (length coeffs)"
    | "i = int (length coeffs)" | "int (length coeffs) < i"
    by linarith
  then show ?thesis
  proof cases
    case 1
    then show ?thesis by (simp add: coeff_at_def)
  next
    case 2
    then show ?thesis using n assms by (simp add: coeff_at_def expand_step_nth)
  next
    case 3
    then have k: "nat i \<le> length coeffs" "nat i \<noteq> 0" "nat i \<noteq> length coeffs" by auto
    have "nat (i - 1) = nat i - 1" by simp
    then show ?thesis using 3 assms k by (simp add: coeff_at_def expand_step_nth)
  next
    case 4
    then have "nat (i - 1) = length coeffs - 1" by simp
    then show ?thesis using 4 n assms by (simp add: coeff_at_def expand_step_nth)
  next
    case 5
    then show ?thesis by (simp add: coeff_at_def)
  qed
qed

lemma coeff_at_eqI:
  assumes "length xs = length ys" "\<And>i. coeff_at xs i = coeff_at ys i"
  shows "xs = ys"
proof (rule nth_equalityI)
  show "length xs = length ys" by fact
next
  fix k assume k: "k < length xs"
  have "coeff_at xs (int k) = coeff_at ys (int k)" by (rule assms(2))
  then show "xs ! k = ys ! k" using k assms(1) by (simp add: coeff_at_def)
qed

lemma expand_step_nonempty [simp]: "expand_step rt coeffs \<noteq> []"
proof
  assume "expand_step rt coeffs = []"
  then have "length (expand_step rt coeffs) = 0" by simp
  then show False by simp
qed

lemma expand_step_commute:
  assumes "coeffs \<noteq> []"
  shows "expand_step r (expand_step s coeffs) = expand_step s (expand_step r coeffs)"
proof (rule coeff_at_eqI)
  show "length (expand_step r (expand_step s coeffs)) = length (expand_step s (expand_step r coeffs))"
    by simp
next
  fix i
  show "coeff_at (expand_step r (expand_step s coeffs)) i
      = coeff_at (expand_step s (expand_step r coeffs)) i"
    using assms by (simp add: coeff_at_expand_step algebra_simps)
qed

lemma expand_loop_length: "length (expand_loop roots coeffs) = length coeffs + length roots"
  by (induction roots arbitrary: coeffs) simp_all

lemma expand_loop_nonempty: "coeffs \<noteq> [] \<Longrightarrow> expand_loop roots coeffs \<noteq> []"
  by (induction roots arbitrary: coeffs) simp_all

lemma expand_step_last:
  assumes "coeffs \<noteq> []"
  shows "last (expand_step rt coeffs) = last coeffs"
proof -
  have "last (expand_step rt coeffs) = expand_step rt coeffs ! length coeffs"
    by (simp add: last_conv_nth)
  also have "\<dots> = coeffs ! (length coeffs - 1)"
    using assms by (simp add: expand_step_nth)
  also have "\<dots> = last coeffs"
    using assms by (simp add: last_conv_nth)
  finally show ?thesis .
qed

lemma expand_loop_last: "coeffs \<noteq> [] \<Longrightarrow> last (expand_loop roots coeffs) = last coeffs"
  by (induction roots arbitrary: coeffs) (simp_all add: expand_step_last)

lemma expand_loop_swap:
  assumes "coeffs \<noteq> []"
  shows "expand_loop roots (expand_step r coeffs) = expand_step r (expand_loop roots coeffs)"
  using assms
proof (induction roots arbitrary: coeffs)
  case Nil
  then show ?case by simp
next
  case (Cons s roots)
  have "expand_loop (s # roots) (expand_step r coeffs)
      = expand_loop roots (expand_step r (expand_step s coeffs))"
    using Cons.prems by (simp add: expand_step_commute)
  also have "\<dots> = expand_step r (expand_loop roots (expand_step s coeffs))"
    by (rule Cons.IH) simp
  finally show ?case by simp
qed

lemma expand_loop_mset:
  assumes "mset xs = mset ys" "coeffs \<noteq> []"
  shows "expand_loop xs coeffs = expand_loop ys coeffs"
  using assms
proof (induction xs arbitrary: ys coeffs)
  case Nil
  then show ?case by simp
next
  case (Cons x xs)
  from Cons.prems(1) have "x \<in> set ys"
    by (metis list.set_intros(1) set_mset_mset)
  then obtain ys1 ys2 where ys: "ys = ys1 @ x # ys2"
    by (meson split_list)
  with Cons.prems(1) have m: "mset xs = mset (ys1 @ ys2)" by simp
  have app: "\<And>as bs cs. expand_loop (as @ bs) cs = expand_loop bs (expand_loop as cs)"
  proof -
    fix as bs :: "complex list" and cs
    show "expand_loop (as @ bs) cs = expand_loop bs (expand_loop as cs)"
      by (induction as arbitrary: cs) simp_all
  qed
  have "expand_loop (x # xs) coeffs = expand_loop (ys1 @ ys2) (expand_step x coeffs)"
    using Cons.IH [OF m, of "expand_step x coeffs"] by simp
  also have "\<dots> = expand_loop ys2 (expand_loop ys1 (expand_step x coeffs))"
    by (simp add: app)
  also have "\<dots> = expand_loop ys2 (expand_step x (expand_loop ys1 coeffs))"
    using Cons.prems(2) by (simp add: expand_loop_swap)
  also have "\<dots> = expand_loop ys coeffs"
    by (simp add: ys app)
  finally show ?case .
qed

text \<open>
  Claim C9. For every finite root list, \<open>_expand\<close> returns a coefficient vector of length
  exactly \<open>len(roots) + 1\<close> whose last (leading) coefficient is exactly 1: the expanded
  polynomial is monic.
\<close>

theorem expand_length_monic:
  "length (expand roots) = length roots + 1 \<and> last (expand roots) = 1"
  by (simp add: expand_def expand_loop_length expand_loop_last)

theorem expand_length_monic_witness:
  "length (expand [2, 3]) = 3 \<and> last (expand [2, 3]) = 1"
  using expand_length_monic [of "[2, 3]"] by simp

text \<open>
  Claim C7. \<open>_expand\<close> of the empty root collection is the single coefficient 1, and in
  exact complex arithmetic the result does not depend on the order of the roots: two
  root lists that are permutations of each other expand to the same coefficient vector.
\<close>

theorem expand_empty_and_permutation:
  "expand [] = [1] \<and> (mset xs = mset ys \<longrightarrow> expand xs = expand ys)"
proof (intro conjI impI)
  show "expand [] = [1]" by (simp add: expand_def)
next
  assume m: "mset xs = mset ys"
  then have "length xs = length ys" by (rule mset_eq_length)
  moreover have "expand_loop xs [1] = expand_loop ys [1]"
    using m by (rule expand_loop_mset) simp
  ultimately show "expand xs = expand ys" by (simp add: expand_def)
qed

theorem expand_empty_and_permutation_witness:
  "mset [1, 2 :: complex] = mset [2, 1] \<and> expand [1, 2] = expand [2, 1]"
  using expand_empty_and_permutation [of "[1, 2]" "[2, 1]"] by simp

section \<open>Prototype poles\<close>

lemma cos_neg_between:
  fixes x :: real
  assumes "pi / 2 < x" "x < 3 * pi / 2"
  shows "cos x < 0"
proof -
  have "0 < cos (x - pi)"
    by (rule cos_gt_zero_pi) (use assms in auto)
  then show ?thesis by (simp add: cos_diff)
qed

lemma cos_nonneg_high:
  fixes x :: real
  assumes "3 * pi / 2 \<le> x" "x \<le> 2 * pi"
  shows "0 \<le> cos x"
proof -
  have "0 \<le> cos (x - 2 * pi)"
    by (rule cos_ge_zero) (use assms in auto)
  then show ?thesis by (simp add: cos_diff)
qed

lemma cos_quarter_sign:
  fixes k n :: nat
  assumes "0 < n" "k \<le> 4 * n"
  shows "cos (real k * pi / (2 * real n)) < 0 \<longleftrightarrow> n < k \<and> k < 3 * n"
proof -
  let ?x = "real k * pi / (2 * real n)"
  have n: "0 < real n" using assms by simp
  consider "k \<le> n" | "n < k" "k < 3 * n" | "3 * n \<le> k" by linarith
  then show ?thesis
  proof cases
    case 1
    then have "real k \<le> real n" by simp
    then have "?x \<le> pi / 2" using n by (simp add: field_simps)
    moreover have "0 \<le> ?x" by simp
    then have "- (pi / 2) \<le> ?x" using pi_ge_zero by linarith
    ultimately have "0 \<le> cos ?x" by (intro cos_ge_zero)
    then show ?thesis using 1 by auto
  next
    case 2
    then have "real n < real k" "real k < 3 * real n" by (simp_all flip: of_nat_less_iff)
    then have "pi / 2 < ?x" "?x < 3 * pi / 2" using n by (simp_all add: field_simps)
    then have "cos ?x < 0" by (rule cos_neg_between)
    then show ?thesis using 2 by auto
  next
    case 3
    then have "3 * real n \<le> real k" "real k \<le> 4 * real n" using assms(2) by (simp_all flip: of_nat_le_iff)
    then have "3 * pi / 2 \<le> ?x" "?x \<le> 2 * pi" using n by (simp_all add: field_simps)
    then have "0 \<le> cos ?x" by (rule cos_nonneg_high)
    then show ?thesis using 3 by auto
  qed
qed


lemma Re_exp_i: "Re (exp (\<i> * of_real t)) = cos t"
  by (simp add: cis_conv_exp [symmetric])

lemma butterworth_fold_eq:
  "fold (\<lambda>i ps. let theta = theta_exact ord i;
                      pole = exp (\<i> * of_real theta)
                  in if Re pole < 0 then ps @ [pole] else ps) is ps
   = ps @ map (\<lambda>i. exp (\<i> * of_real (theta_exact ord i)))
            (filter (\<lambda>i. cos (theta_exact ord i) < 0) is)"
  by (induction "is" arbitrary: ps) (simp_all add: Let_def Re_exp_i)

lemma butterworth_exact_eq:
  "butterworth_exact ord ps
   = ps @ map (\<lambda>i. exp (\<i> * of_real (theta_exact ord i)))
            (filter (\<lambda>i. cos (theta_exact ord i) < 0) [0..<nat (2 * ord)])"
  unfolding butterworth_exact_def by (rule butterworth_fold_eq)

lemma butterworth_exact_lhp:
  assumes "p \<in> set (butterworth_exact ord [])"
  shows "Re p < 0 \<and> cmod p = 1"
  using assms by (auto simp: butterworth_exact_eq Re_exp_i)

lemma theta_exact_odd:
  assumes "odd ord" "0 < ord"
  shows "theta_exact ord i = real (2 * i) * pi / (2 * real (nat ord))"
  using assms by (simp add: theta_exact_def PI_def)

lemma theta_exact_even:
  assumes "even ord" "0 < ord"
  shows "theta_exact ord i = real (2 * i + 1) * pi / (2 * real (nat ord))"
  using assms by (simp add: theta_exact_def PI_def field_simps)

lemma butterworth_keep_iff:
  assumes "0 < ord" "i < nat (2 * ord)"
  shows "cos (theta_exact ord i) < 0 \<longleftrightarrow>
           (if odd ord then nat ord < 2 * i \<and> 2 * i < 3 * nat ord
            else nat ord < 2 * i + 1 \<and> 2 * i + 1 < 3 * nat ord)"
proof (cases "odd ord")
  case True
  have n: "0 < nat ord" using assms(1) by simp
  have "2 * i \<le> 4 * nat ord" using assms by linarith
  from cos_quarter_sign [OF n this] show ?thesis
    unfolding theta_exact_odd [OF True assms(1)] using True by simp
next
  case False
  have n: "0 < nat ord" using assms(1) by simp
  have "2 * i + 1 \<le> 4 * nat ord" using assms by linarith
  from cos_quarter_sign [OF n this] show ?thesis
    unfolding theta_exact_even [OF _ assms(1)] using False
    by (simp add: theta_exact_even [OF _ assms(1)])
qed

lemma card_kept_odd:
  fixes n :: nat
  assumes "odd n"
  shows "card {i. i < 2 * n \<and> n < 2 * i \<and> 2 * i < 3 * n} = n"
proof -
  from assms obtain m where m: "n = 2 * m + 1" by (elim oddE)
  have "{i. i < 2 * n \<and> n < 2 * i \<and> 2 * i < 3 * n} = {m + 1 ..< 3 * m + 2}"
    unfolding m by auto
  then show ?thesis by (simp add: m)
qed

lemma card_kept_even:
  fixes n :: nat
  assumes "even n"
  shows "card {i. i < 2 * n \<and> n < 2 * i + 1 \<and> 2 * i + 1 < 3 * n} = n"
proof -
  from assms obtain m where m: "n = 2 * m" by (elim evenE)
  have "{i. i < 2 * n \<and> n < 2 * i + 1 \<and> 2 * i + 1 < 3 * n} = {m ..< 3 * m}"
    unfolding m by auto
  then show ?thesis by (simp add: m)
qed


lemma butterworth_exact_length_card:
  "length (butterworth_exact ord []) =
        card {i. i < nat (2 * ord) \<and> cos (theta_exact ord i) < 0}"
proof -
  have "{i. i < length [0..<nat (2 * ord)] \<and> cos (theta_exact ord ([0..<nat (2 * ord)] ! i)) < 0}
      = {i. i < nat (2 * ord) \<and> cos (theta_exact ord i) < 0}"
    by (rule Collect_cong) auto
  then show ?thesis
    by (simp only: butterworth_exact_eq append_Nil length_map length_filter_conv_card)
qed

lemma butterworth_exact_length: "length (butterworth_exact ord []) = nat ord"
proof (cases "0 < ord")
  case False
  then show ?thesis by (simp add: butterworth_exact_def)
next
  case pos: True
  define n where "n = nat ord"
  have n1: "nat (2 * ord) = 2 * n"
    using pos by (simp add: n_def nat_mult_distrib)
  have n2: "odd ord = odd n"
    using pos by (simp add: n_def even_nat_iff)
  show ?thesis
  proof (cases "odd n")
    case True
    have "{i. i < nat (2 * ord) \<and> cos (theta_exact ord i) < 0}
        = {i. i < 2 * n \<and> n < 2 * i \<and> 2 * i < 3 * n}"
    proof (rule Collect_cong, rule conj_cong)
      fix i show "(i < nat (2 * ord)) = (i < 2 * n)" by (simp only: n1)
    next
      fix i assume "i < 2 * n"
      then have "i < nat (2 * ord)" by (simp only: n1)
      from butterworth_keep_iff [OF pos this] True
      show "(cos (theta_exact ord i) < 0) = (n < 2 * i \<and> 2 * i < 3 * n)"
        by (simp add: n2 n_def)
    qed
    then have "length (butterworth_exact ord []) = n"
      by (simp only: butterworth_exact_length_card card_kept_odd [OF True])
    then show ?thesis by (simp only: n_def)
  next
    case False
    then have e: "even n" by simp
    have "{i. i < nat (2 * ord) \<and> cos (theta_exact ord i) < 0}
        = {i. i < 2 * n \<and> n < 2 * i + 1 \<and> 2 * i + 1 < 3 * n}"
    proof (rule Collect_cong, rule conj_cong)
      fix i show "(i < nat (2 * ord)) = (i < 2 * n)" by (simp only: n1)
    next
      fix i assume "i < 2 * n"
      then have "i < nat (2 * ord)" by (simp only: n1)
      from butterworth_keep_iff [OF pos this] False
      show "(cos (theta_exact ord i) < 0) = (n < 2 * i + 1 \<and> 2 * i + 1 < 3 * n)"
        by (simp add: n2 n_def)
    qed
    then have "length (butterworth_exact ord []) = n"
      by (simp only: butterworth_exact_length_card card_kept_even [OF e])
    then show ?thesis by (simp only: n_def)
  qed
qed

lemma bessel_loop_length:
  "bessel_loop n p ps = Inr qs \<Longrightarrow> length qs = length ps + 2 * n"
  by (induction n arbitrary: p ps) (auto simp: Let_def split: if_splits)

lemma bessel_loop_error: "bessel_loop n p ps = Inl e \<Longrightarrow> e = IndexError"
  by (induction n arbitrary: p ps) (auto simp: Let_def split: if_splits)

lemma bessel_poles_length:
  assumes "bessel_poles ord [] = Inr qs" "0 \<le> ord"
  shows "length qs = nat ord"
proof (cases "odd ord")
  case True
  with assms(1) have "length qs = 1 + 2 * nat (ord div 2)"
    by (auto simp: bessel_poles_def Let_def split: if_splits dest: bessel_loop_length)
  moreover have "1 + 2 * nat (ord div 2) = nat ord"
  proof -
    from True obtain k where k: "ord = 2 * k + 1" by (auto elim: oddE)
    with assms(2) have "0 \<le> k" by simp
    then show ?thesis by (simp add: k nat_add_distrib nat_mult_distrib)
  qed
  ultimately show ?thesis by simp
next
  case False
  with assms(1) have "length qs = 2 * nat (ord div 2)"
    by (auto simp: bessel_poles_def Let_def dest: bessel_loop_length)
  moreover have "2 * nat (ord div 2) = nat ord"
  proof -
    from False obtain k where k: "ord = 2 * k" by (auto elim: evenE)
    with assms(2) show ?thesis by (simp add: nat_mult_distrib)
  qed
  ultimately show ?thesis by simp
qed

lemma bessel_poles_error: "bessel_poles ord ps = Inl e \<Longrightarrow> e = IndexError"
  by (auto simp: bessel_poles_def Let_def split: if_splits dest: bessel_loop_error)

subsection \<open>Python's float conversions\<close>

lemma float_overflow_large:
  assumes "x \<le> 2 ^ 64"
  shows "x < float_overflow"
proof -
  have "(2::real) ^ 64 < 2 ^ 1024 - 2 ^ 970" by simp
  with assms show ?thesis by (simp add: float_overflow_def)
qed

lemma py_float_Inr: "py_float i = Inr x \<Longrightarrow> x = real_of_int i"
  by (simp add: py_float_def split: if_splits)

lemma py_float_Inl: "py_float i = Inl e \<Longrightarrow> e = OverflowError"
  by (simp add: py_float_def split: if_splits)

lemma py_float_ok:
  "\<bar>real_of_int i\<bar> < float_overflow \<Longrightarrow> py_float i = Inr (real_of_int i)"
  by (simp add: py_float_def)

lemma py_pow_Inr: "py_pow b x = Inr r \<Longrightarrow> r = b powr x \<and> b powr x < float_overflow"
  by (auto simp: py_pow_def split: if_splits)

lemma py_pow_Inl: "py_pow b x = Inl e \<Longrightarrow> e = OverflowError \<and> float_overflow \<le> b powr x"
  by (auto simp: py_pow_def split: if_splits)

subsection \<open>The Butterworth loop and its exact poles\<close>

lemma butterworth_theta_Inr:
  "butterworth_theta ord i = Inr t \<Longrightarrow> t = theta_exact ord i"
  by (auto simp: butterworth_theta_def theta_exact_def split: sum.splits dest!: py_float_Inr)

lemma butterworth_theta_Inl:
  "butterworth_theta ord i = Inl e \<Longrightarrow> e = OverflowError"
  by (auto simp: butterworth_theta_def split: sum.splits dest: py_float_Inl)

lemma butterworth_theta_ok:
  assumes "\<bar>real_of_int ord\<bar> < float_overflow" "real i < float_overflow"
  shows "butterworth_theta ord i = Inr (theta_exact ord i)"
  using assms by (simp add: butterworth_theta_def theta_exact_def py_float_ok)

lemma butterworth_fold_Inl:
  "fold (\<lambda>i acc. case acc of
                     Inl e \<Rightarrow> Inl e
                   | Inr ps \<Rightarrow>
                       (case butterworth_theta ord i of
                          Inl e \<Rightarrow> Inl e
                        | Inr theta \<Rightarrow>
                            let pole = exp (\<i> * of_real theta)
                            in Inr (if Re pole < 0 then ps @ [pole] else ps)))
        is (Inl e) = Inl e"
  by (induction "is") simp_all

lemma butterworth_fold_cases:
  "(\<exists>e. fold (\<lambda>i acc. case acc of
                     Inl e \<Rightarrow> Inl e
                   | Inr ps \<Rightarrow>
                       (case butterworth_theta ord i of
                          Inl e \<Rightarrow> Inl e
                        | Inr theta \<Rightarrow>
                            let pole = exp (\<i> * of_real theta)
                            in Inr (if Re pole < 0 then ps @ [pole] else ps)))
        is (Inr ps) = Inl e \<and> e = OverflowError
          \<and> (\<exists>i \<in> set is. butterworth_theta ord i = Inl OverflowError))
   \<or> fold (\<lambda>i acc. case acc of
                     Inl e \<Rightarrow> Inl e
                   | Inr ps \<Rightarrow>
                       (case butterworth_theta ord i of
                          Inl e \<Rightarrow> Inl e
                        | Inr theta \<Rightarrow>
                            let pole = exp (\<i> * of_real theta)
                            in Inr (if Re pole < 0 then ps @ [pole] else ps)))
        is (Inr ps)
      = Inr (fold (\<lambda>i ps. let theta = theta_exact ord i;
                      pole = exp (\<i> * of_real theta)
                  in if Re pole < 0 then ps @ [pole] else ps) is ps)"
proof (induction "is" arbitrary: ps)
  case Nil
  then show ?case by simp
next
  case (Cons i "is")
  show ?case
  proof (cases "butterworth_theta ord i")
    case (Inl e)
    then have "e = OverflowError" by (rule butterworth_theta_Inl)
    with Inl show ?thesis by (simp add: butterworth_fold_Inl)
  next
    case (Inr t)
    then have t: "t = theta_exact ord i" by (rule butterworth_theta_Inr)
    let ?ps' = "if Re (exp (\<i> * of_real t)) < 0 then ps @ [exp (\<i> * of_real t)] else ps"
    from Cons.IH [of ?ps'] show ?thesis
      using Inr t by (auto simp: Let_def)
  qed
qed

lemma butterworth_loop_Inr:
  assumes "butterworth_loop ord ps = Inr qs"
  shows "qs = butterworth_exact ord ps"
  using assms butterworth_fold_cases [of ord "[0..<nat (2 * ord)]" ps]
  by (auto simp: butterworth_loop_def butterworth_exact_def)

lemma butterworth_loop_Inl:
  assumes "butterworth_loop ord ps = Inl e"
  shows "e = OverflowError"
  using assms butterworth_fold_cases [of ord "[0..<nat (2 * ord)]" ps]
  by (auto simp: butterworth_loop_def)

lemma butterworth_loop_ok:
  assumes "real_of_int (2 * ord) < float_overflow"
  shows "butterworth_loop ord ps = Inr (butterworth_exact ord ps)"
proof (cases "0 < ord")
  case False
  then show ?thesis by (simp add: butterworth_loop_def butterworth_exact_def)
next
  case True
  have "butterworth_theta ord i = Inr (theta_exact ord i)" if "i \<in> set [0..<nat (2 * ord)]" for i
  proof (rule butterworth_theta_ok)
    show "\<bar>real_of_int ord\<bar> < float_overflow" using True assms by simp
    from that have "int i < 2 * ord" by simp
    then have "real_of_int (int i) < real_of_int (2 * ord)" by (simp only: of_int_less_iff)
    with assms show "real i < float_overflow" by simp
  qed
  with butterworth_fold_cases [of ord "[0..<nat (2 * ord)]" ps] show ?thesis
    by (auto simp: butterworth_loop_def butterworth_exact_def)
qed

lemma butterworth_loop_empty:
  assumes "ord \<le> 0"
  shows "butterworth_loop ord ps = Inr ps"
  using assms by (simp add: butterworth_loop_def)

subsection \<open>The Chebyshev warp factor\<close>

lemma chebyshev_numerator_pos:
  assumes "rip < 0"
  shows "0 < arsinh (1 / sqrt (10 powr (- rip / 10) - 1))"
proof -
  have "1 < (10::real) powr (- rip / 10)"
    by (rule gr_one_powr) (use assms in auto)
  then have "0 < sqrt (10 powr (- rip / 10) - 1)" by simp
  then have "0 < 1 / sqrt (10 powr (- rip / 10) - 1)" by simp
  then show ?thesis by (simp only: arsinh_real_pos_iff)
qed

lemma chebyshev_y_Inr:
  assumes "chebyshev_y rip ord = Inr y"
  shows "y = arsinh (1 / sqrt (10 powr (- rip / 10) - 1)) / real_of_int ord"
    and "10 powr (- rip / 10) < float_overflow"
  using assms
  by (auto simp: chebyshev_y_def Let_def split: sum.splits dest!: py_pow_Inr py_float_Inr)

lemma chebyshev_y_Inl:
  assumes "chebyshev_y rip ord = Inl e"
  shows "e = OverflowError"
  using assms
  by (auto simp: chebyshev_y_def Let_def split: sum.splits dest: py_pow_Inl py_float_Inl)

lemma chebyshev_y_ok:
  assumes "10 powr (- rip / 10) < float_overflow" "\<bar>real_of_int ord\<bar> < float_overflow"
  shows "chebyshev_y rip ord
           = Inr (arsinh (1 / sqrt (10 powr (- rip / 10) - 1)) / real_of_int ord)"
  using assms by (simp add: chebyshev_y_def Let_def py_pow_def py_float_ok)

lemma chebyshev_y_pos:
  assumes "rip < 0" "0 < ord" "chebyshev_y rip ord = Inr y"
  shows "0 < y"
  using chebyshev_numerator_pos [OF assms(1)] assms(2) chebyshev_y_Inr(1) [OF assms(3)]
  by simp

lemma chebyshev_y_neg:
  assumes "rip < 0" "ord < 0" "chebyshev_y rip ord = Inr y"
  shows "y < 0"
  using chebyshev_numerator_pos [OF assms(1)] assms(2) chebyshev_y_Inr(1) [OF assms(3)]
  by (simp add: divide_pos_neg)

subsection \<open>The prototype stage\<close>

text \<open>\<open>_compute_s_plane\<close> assigns nothing but \<open>self.splane.poles\<close>.\<close>

lemma compute_s_plane_frame:
  assumes "compute_s_plane self = (r, self')"
  shows "\<exists>ps. self' = self\<lparr>splane := (splane self)\<lparr>poles := ps\<rparr>\<rparr>"
proof -
  have id: "self = self\<lparr>splane := (splane self)\<lparr>poles := poles (splane self)\<rparr>\<rparr>" by simp
  show ?thesis
    using assms
    by (auto simp: compute_s_plane_def Let_def split: sum.splits if_splits
             intro: exI [of _ "poles (splane self)"])
qed

lemma compute_s_plane_error:
  assumes "compute_s_plane self = (Some e, self')"
  shows "(filter_type self = Some ''Ch'' \<and> (\<exists>v. e = ValueError v))
       \<or> ((filter_type self = Some ''Bu'' \<or> filter_type self = Some ''Ch'')
           \<and> e = OverflowError)
       \<or> (filter_type self = Some ''Be'' \<and> e = IndexError)"
  using assms
  by (auto simp: compute_s_plane_def Let_def split: sum.splits if_splits
           dest: bessel_poles_error butterworth_loop_Inl chebyshev_y_Inl py_pow_Inl)

text \<open>What the stage assigns when it returns, by family.\<close>

lemma compute_s_plane_Bu_None:
  assumes "compute_s_plane self = (None, self')" "filter_type self = Some ''Bu''"
  shows "poles (splane self') = butterworth_exact (order self) []"
  using assms
  by (auto simp: compute_s_plane_def Let_def split: sum.splits dest: butterworth_loop_Inr)

lemma compute_s_plane_Ch_None:
  assumes "compute_s_plane self = (None, self')" "filter_type self = Some ''Ch''"
  shows "chebrip self < 0
       \<and> (order self = 0 \<and> poles (splane self') = []
          \<or> (\<exists>y. order self \<noteq> 0 \<and> chebyshev_y (chebrip self) (order self) = Inr y \<and> 0 < y
                 \<and> poles (splane self') =
                     map (\<lambda>p. of_real (Re p * sinh y) + \<i> * of_real (Im p * cosh y))
                         (butterworth_exact (order self) [])))"
  using assms
  by (auto simp: compute_s_plane_def Let_def butterworth_loop_empty
           split: sum.splits if_splits dest: butterworth_loop_Inr)

lemma compute_s_plane_order_0:
  assumes "compute_s_plane self = (r, self')" "filter_type self = Some ''Ch''" "order self = 0"
  shows "poles (splane self') = []"
  using assms
  by (auto simp: compute_s_plane_def Let_def butterworth_loop_empty split: sum.splits if_splits)

lemma compute_s_plane_length:
  assumes "compute_s_plane self = (None, self')" "0 \<le> order self"
    and "filter_type self = Some ''Bu'' \<or> filter_type self = Some ''Be''
         \<or> filter_type self = Some ''Ch''"
  shows "length (poles (splane self')) = nat (order self)"
proof -
  consider "filter_type self = Some ''Bu''" | "filter_type self = Some ''Be''"
    | "filter_type self = Some ''Ch''" using assms(3) by blast
  then show ?thesis
  proof cases
    case 1
    from compute_s_plane_Bu_None [OF assms(1) 1] show ?thesis
      by (simp add: butterworth_exact_length)
  next
    case 2
    with assms(1,2) show ?thesis
      by (auto simp: compute_s_plane_def Let_def split: sum.splits dest: bessel_poles_length)
  next
    case 3
    from compute_s_plane_Ch_None [OF assms(1) 3] show ?thesis
      by (auto simp: butterworth_exact_length)
  qed
qed

lemma compute_s_plane_lhp:
  assumes "compute_s_plane self = (None, self')"
    and "filter_type self = Some ''Bu'' \<or> filter_type self = Some ''Ch''"
    and "p \<in> set (poles (splane self'))"
  shows "Re p < 0"
proof (cases "filter_type self = Some ''Bu''")
  case True
  from compute_s_plane_Bu_None [OF assms(1) True] assms(3) show ?thesis
    by (simp add: butterworth_exact_lhp)
next
  case False
  with assms(2) have ch: "filter_type self = Some ''Ch''" by simp
  from compute_s_plane_Ch_None [OF assms(1) ch] assms(3)
  obtain y where y: "0 < y"
    and ps: "poles (splane self') =
      map (\<lambda>p. of_real (Re p * sinh y) + \<i> * of_real (Im p * cosh y))
          (butterworth_exact (order self) [])"
    by auto
  from assms(3) obtain q where q: "q \<in> set (butterworth_exact (order self) [])"
      "p = of_real (Re q * sinh y) + \<i> * of_real (Im q * cosh y)"
    unfolding ps by auto
  have "0 < sinh y" using y by (simp only: sinh_real_pos_iff)
  moreover have "Re q < 0" using q(1) by (simp add: butterworth_exact_lhp)
  ultimately show ?thesis by (simp add: q(2) mult_neg_pos)
qed

section \<open>The stages after the prototype\<close>

lemma prewarp_frequencies_frame:
  "prewarp_frequencies self =
     self\<lparr>warped_alpha1 := warped_alpha1 (prewarp_frequencies self),
          warped_alpha2 := warped_alpha2 (prewarp_frequencies self)\<rparr>"
  by (simp add: prewarp_frequencies_def)

lemma prewarp_frequencies_fields [simp]:
  "splane (prewarp_frequencies self) = splane self"
  "zplane (prewarp_frequencies self) = zplane self"
  "band_type (prewarp_frequencies self) = band_type self"
  "raw_alpha1 (prewarp_frequencies self) = raw_alpha1 self"
  "raw_alpha2 (prewarp_frequencies self) = raw_alpha2 self"
  by (simp_all add: prewarp_frequencies_def)

lemma fold_band_pair:
  "fold (\<lambda>pole new_poles. new_poles @ band_pair w0 (h pole)) ps acc
   = acc @ concat (map (\<lambda>pole. band_pair w0 (h pole)) ps)"
  by (induction ps arbitrary: acc) simp_all

lemma fold_band_pair_zeros:
  "fold (\<lambda>pole (new_poles, new_zeros). (new_poles @ band_pair w0 (h pole), new_zeros @ zs))
        ps (acc, bcc)
   = (acc @ concat (map (\<lambda>pole. band_pair w0 (h pole)) ps),
      bcc @ concat (map (\<lambda>pole. zs) ps))"
  by (induction ps arbitrary: acc bcc) simp_all

lemma length_band_pair [simp]: "length (band_pair w0 hba) = 2"
  by (simp add: band_pair_def Let_def)

lemma length_concat_band_pair:
  "length (concat (map (\<lambda>pole. band_pair w0 (h pole)) ps)) = 2 * length ps"
  by (induction ps) simp_all

lemma length_concat_const2:
  "length (concat (map (\<lambda>pole. [a, b]) ps)) = 2 * length ps"
  by (induction ps) simp_all

lemma normalize_Lp:
  assumes "band_type self = Some ''Lp''"
  shows "normalize_splane self = self\<lparr>splane := (splane self)
           \<lparr>poles := map (\<lambda>p. p * of_real (TWOPI * warped_alpha1 self)) (poles (splane self)),
            zeros := []\<rparr>\<rparr>"
  using assms by (simp add: normalize_splane_def Let_def)

lemma normalize_Hp:
  assumes "band_type self = Some ''Hp''"
  shows "normalize_splane self = self\<lparr>splane := (splane self)
           \<lparr>poles := map (\<lambda>p. of_real (TWOPI * warped_alpha1 self) / p) (poles (splane self)),
            zeros := replicate (length (poles (splane self))) 0\<rparr>\<rparr>"
  using assms by (simp add: normalize_splane_def Let_def)

lemma normalize_Bp:
  assumes "band_type self = Some ''Bp''"
  shows "normalize_splane self = self\<lparr>splane := (splane self)
           \<lparr>poles := concat (map (\<lambda>pole. band_pair
                         (sqrt (TWOPI * warped_alpha1 self * (TWOPI * warped_alpha2 self)))
                         (0.5 * pole * of_real (TWOPI * warped_alpha2 self - TWOPI * warped_alpha1 self)))
                       (poles (splane self))),
            zeros := replicate (length (poles (splane self))) 0\<rparr>\<rparr>"
  using assms
  by (simp add: normalize_splane_def Let_def fold_band_pair length_concat_band_pair)

lemma normalize_Bs:
  assumes "band_type self = Some ''Bs''"
  shows "normalize_splane self = self\<lparr>splane := (splane self)
           \<lparr>poles := concat (map (\<lambda>pole. band_pair
                         (sqrt (TWOPI * warped_alpha1 self * (TWOPI * warped_alpha2 self)))
                         (0.5 * of_real (TWOPI * warped_alpha2 self - TWOPI * warped_alpha1 self) / pole))
                       (poles (splane self))),
            zeros := concat (map (\<lambda>pole.
                         [\<i> * of_real (sqrt (TWOPI * warped_alpha1 self * (TWOPI * warped_alpha2 self))),
                          - \<i> * of_real (sqrt (TWOPI * warped_alpha1 self * (TWOPI * warped_alpha2 self)))])
                       (poles (splane self)))\<rparr>\<rparr>"
  using assms
  by (simp add: normalize_splane_def Let_def fold_band_pair_zeros)

lemma normalize_lengths:
  assumes "band_type self = Some b"
  shows "length (poles (splane (normalize_splane self))) =
           (if b = ''Lp'' \<or> b = ''Hp'' then length (poles (splane self))
            else if b = ''Bp'' \<or> b = ''Bs'' then 2 * length (poles (splane self))
            else length (poles (splane self)))"
    and "length (zeros (splane (normalize_splane self))) =
           (if b = ''Lp'' then 0
            else if b = ''Hp'' \<or> b = ''Bp'' then length (poles (splane self))
            else if b = ''Bs'' then 2 * length (poles (splane self))
            else length (zeros (splane self)))"
proof -
  consider "b = ''Lp''" | "b = ''Hp''" | "b = ''Bp''" | "b = ''Bs''"
    | "b \<noteq> ''Lp''" "b \<noteq> ''Hp''" "b \<noteq> ''Bp''" "b \<noteq> ''Bs''" by blast
  then have "length (poles (splane (normalize_splane self))) =
           (if b = ''Lp'' \<or> b = ''Hp'' then length (poles (splane self))
            else if b = ''Bp'' \<or> b = ''Bs'' then 2 * length (poles (splane self))
            else length (poles (splane self)))
     \<and> length (zeros (splane (normalize_splane self))) =
           (if b = ''Lp'' then 0
            else if b = ''Hp'' \<or> b = ''Bp'' then length (poles (splane self))
            else if b = ''Bs'' then 2 * length (poles (splane self))
            else length (zeros (splane self)))"
  proof cases
    case 1 then show ?thesis using assms by (simp add: normalize_Lp)
  next
    case 2 then show ?thesis using assms by (simp add: normalize_Hp)
  next
    case 3 then show ?thesis using assms
      by (simp add: normalize_Bp length_concat_band_pair)
  next
    case 4 then show ?thesis using assms
      by (simp add: normalize_Bs length_concat_band_pair length_concat_const2)
  next
    case 5 then show ?thesis using assms by (simp add: normalize_splane_def Let_def)
  qed
  then show "length (poles (splane (normalize_splane self))) =
           (if b = ''Lp'' \<or> b = ''Hp'' then length (poles (splane self))
            else if b = ''Bp'' \<or> b = ''Bs'' then 2 * length (poles (splane self))
            else length (poles (splane self)))"
    and "length (zeros (splane (normalize_splane self))) =
           (if b = ''Lp'' then 0
            else if b = ''Hp'' \<or> b = ''Bp'' then length (poles (splane self))
            else if b = ''Bs'' then 2 * length (poles (splane self))
            else length (zeros (splane self)))"
    by simp_all
qed

lemma normalize_fields [simp]:
  "zplane (normalize_splane self) = zplane self"
  "band_type (normalize_splane self) = band_type self"
  "raw_alpha1 (normalize_splane self) = raw_alpha1 self"
  "raw_alpha2 (normalize_splane self) = raw_alpha2 self"
  by (simp_all add: normalize_splane_def Let_def split: prod.splits)

lemma blt_pad_eq: "blt_pad zs npoles = zs @ replicate (npoles - length zs) (- 1)"
proof (induction zs npoles rule: blt_pad.induct)
  case (1 zs npoles)
  show ?case
  proof (cases "length zs < npoles")
    case True
    then have "npoles - length zs = Suc (npoles - Suc (length zs))" by simp
    with True 1 show ?thesis
      by (subst blt_pad.simps) (simp add: replicate_append_same)
  next
    case False
    then show ?thesis by (subst blt_pad.simps) simp
  qed
qed

lemma compute_z_blt_eq:
  "compute_z_blt self = self\<lparr>zplane := (zplane self)
      \<lparr>poles := map (\<lambda>s. (2 + s) / (2 - s)) (poles (splane self)),
       zeros := map (\<lambda>s. (2 + s) / (2 - s)) (zeros (splane self))
                @ replicate (length (poles (splane self)) - length (zeros (splane self))) (- 1)\<rparr>\<rparr>"
  by (simp add: compute_z_blt_def Let_def blt_pad_eq)

lemma compute_z_mzt_eq:
  "compute_z_mzt self = self\<lparr>zplane := (zplane self)
      \<lparr>poles := map exp (poles (splane self)), zeros := map exp (zeros (splane self))\<rparr>\<rparr>"
  by (simp add: compute_z_mzt_def Let_def)

lemma expand_nonempty [simp]: "expand roots \<noteq> []"
  by (simp add: expand_def expand_loop_nonempty)

lemma expand_last [simp]: "last (expand roots) = 1"
  by (simp add: expand_def expand_loop_last)

lemma expand_length [simp]: "length (expand roots) = length roots + 1"
  by (simp add: expand_def expand_loop_length)

lemma expand_poly_coeffs:
  "xcoeffs (expand_poly self) = Some (map Re (expand (zeros (zplane self))))"
  "ycoeffs (expand_poly self) = Some (map (\<lambda>c. - Re c) (expand (poles (zplane self))))"
  "zplane (expand_poly self) = zplane self"
  "splane (expand_poly self) = splane self"
  "band_type (expand_poly self) = band_type self"
  by (simp_all add: expand_poly_def Let_def)

section \<open>The pipeline\<close>

text \<open>A successful call went through every stage, on the object with the arguments stored.\<close>

lemma design_InrE:
  assumes "design self ftype btype ord alpha1 alpha2 rip blt pw = (Inr (xs, ys), self')"
  obtains s1 ps where
    "compute_s_plane (self\<lparr>filter_type := Some ftype, band_type := Some btype, order := ord,
                       raw_alpha1 := alpha1,
                       raw_alpha2 := (case alpha2 of Some a \<Rightarrow> a | None \<Rightarrow> alpha1),
                       chebrip := rip, use_blt := blt, prewarp := pw\<rparr>) = (None, s1)"
    "s1 = self\<lparr>filter_type := Some ftype, band_type := Some btype, order := ord,
                       raw_alpha1 := alpha1,
                       raw_alpha2 := (case alpha2 of Some a \<Rightarrow> a | None \<Rightarrow> alpha1),
                       chebrip := rip, use_blt := blt, prewarp := pw,
                       splane := (splane self)\<lparr>poles := ps\<rparr>\<rparr>"
    "self' = expand_poly ((if blt then compute_z_blt else compute_z_mzt)
                            (normalize_splane (prewarp_frequencies s1)))"
    "xs = map Re (expand (zeros (zplane self')))"
    "ys = map (\<lambda>c. - Re c) (expand (poles (zplane self')))"
proof -
  let ?s0 = "self\<lparr>filter_type := Some ftype, band_type := Some btype, order := ord,
                       raw_alpha1 := alpha1,
                       raw_alpha2 := (case alpha2 of Some a \<Rightarrow> a | None \<Rightarrow> alpha1),
                       chebrip := rip, use_blt := blt, prewarp := pw\<rparr>"
  obtain r s1 where c: "compute_s_plane ?s0 = (r, s1)" by (cases "compute_s_plane ?s0")
  with assms have r: "r = None"
    by (cases r) (simp_all add: design_def Let_def)
  from compute_s_plane_frame [OF c] obtain ps where
    s1: "s1 = ?s0\<lparr>splane := (splane ?s0)\<lparr>poles := ps\<rparr>\<rparr>" by blast
  let ?s4 = "expand_poly ((if blt then compute_z_blt else compute_z_mzt)
                            (normalize_splane (prewarp_frequencies s1)))"
  have eq: "design self ftype btype ord alpha1 alpha2 rip blt pw
          = (Inr (the (xcoeffs ?s4), the (ycoeffs ?s4)), ?s4)"
    using c r by (cases blt) (simp_all add: design_def Let_def)
  from trans [OF assms [symmetric] eq] have res: "self' = ?s4" "xs = the (xcoeffs ?s4)" "ys = the (ycoeffs ?s4)"
    by auto
  show ?thesis
  proof (rule that [of s1 ps])
    show "compute_s_plane ?s0 = (None, s1)" using c r by simp
    show "s1 = self\<lparr>filter_type := Some ftype, band_type := Some btype, order := ord,
                       raw_alpha1 := alpha1,
                       raw_alpha2 := (case alpha2 of Some a \<Rightarrow> a | None \<Rightarrow> alpha1),
                       chebrip := rip, use_blt := blt, prewarp := pw,
                       splane := (splane self)\<lparr>poles := ps\<rparr>\<rparr>"
      using s1 by simp
    show "self' = ?s4" by fact
    show "xs = map Re (expand (zeros (zplane self')))"
      using res by (simp add: expand_poly_coeffs)
    show "ys = map (\<lambda>c. - Re c) (expand (poles (zplane self')))"
      using res by (simp add: expand_poly_coeffs)
  qed
qed

text \<open>
  The numbers of poles and zeros in the z-plane after a successful call, for the four
  band types: \<open>n\<close> is the number of prototype poles.
\<close>

lemma design_zplane_lengths:
  assumes "design self ftype btype ord alpha1 alpha2 rip blt pw = (Inr (xs, ys), self')"
    and "btype = ''Lp'' \<or> btype = ''Hp'' \<or> btype = ''Bp'' \<or> btype = ''Bs''"
  shows "\<exists>n.
    length (poles (zplane self')) = (if btype = ''Lp'' \<or> btype = ''Hp'' then n else 2 * n)
    \<and> length (zeros (zplane self')) =
       (if blt then (if btype = ''Lp'' \<or> btype = ''Hp'' then n else 2 * n)
        else if btype = ''Lp'' then 0
        else if btype = ''Hp'' \<or> btype = ''Bp'' then n else 2 * n)
    \<and> ((ftype = ''Bu'' \<or> ftype = ''Be'' \<or> ftype = ''Ch'') \<and> 0 \<le> ord \<longrightarrow> n = nat ord)
    \<and> length xs = length (zeros (zplane self')) + 1
    \<and> length ys = length (poles (zplane self')) + 1"
proof -
  from assms(1) obtain s1 ps where
    c: "compute_s_plane (self\<lparr>filter_type := Some ftype, band_type := Some btype, order := ord,
                       raw_alpha1 := alpha1,
                       raw_alpha2 := (case alpha2 of Some a \<Rightarrow> a | None \<Rightarrow> alpha1),
                       chebrip := rip, use_blt := blt, prewarp := pw\<rparr>) = (None, s1)"
    and s1: "s1 = self\<lparr>filter_type := Some ftype, band_type := Some btype, order := ord,
                       raw_alpha1 := alpha1,
                       raw_alpha2 := (case alpha2 of Some a \<Rightarrow> a | None \<Rightarrow> alpha1),
                       chebrip := rip, use_blt := blt, prewarp := pw,
                       splane := (splane self)\<lparr>poles := ps\<rparr>\<rparr>"
    and self': "self' = expand_poly ((if blt then compute_z_blt else compute_z_mzt)
                            (normalize_splane (prewarp_frequencies s1)))"
    and xs: "xs = map Re (expand (zeros (zplane self')))"
    and ys: "ys = map (\<lambda>c. - Re c) (expand (poles (zplane self')))"
    by (rule design_InrE)
  let ?s2 = "prewarp_frequencies s1"
  have b: "band_type ?s2 = Some btype" by (simp add: s1)
  have p2: "poles (splane ?s2) = ps" by (simp add: s1)
  note nl = normalize_lengths [OF b, unfolded p2]
  show ?thesis
  proof (intro exI [of _ "length ps"] conjI impI)
    show "length (poles (zplane self')) =
            (if btype = ''Lp'' \<or> btype = ''Hp'' then length ps else 2 * length ps)"
      using assms(2) nl
      by (cases blt) (auto simp: self' expand_poly_coeffs compute_z_blt_eq compute_z_mzt_eq)
    show "length (zeros (zplane self')) =
       (if blt then (if btype = ''Lp'' \<or> btype = ''Hp'' then length ps else 2 * length ps)
        else if btype = ''Lp'' then 0
        else if btype = ''Hp'' \<or> btype = ''Bp'' then length ps else 2 * length ps)"
      using assms(2) nl
      by (cases blt) (auto simp: self' expand_poly_coeffs compute_z_blt_eq compute_z_mzt_eq)
    show "length ps = nat ord"
      if "(ftype = ''Bu'' \<or> ftype = ''Be'' \<or> ftype = ''Ch'') \<and> 0 \<le> ord"
      using compute_s_plane_length [OF c] that by (simp add: s1)
    show "length xs = length (zeros (zplane self')) + 1" by (simp add: xs)
    show "length ys = length (poles (zplane self')) + 1" by (simp add: ys)
  qed
qed

section \<open>Results of a design run\<close>

text \<open>The call fails exactly when \<open>_compute_s_plane\<close> raises.\<close>

lemma design_fst:
  "fst (design self ftype btype ord alpha1 alpha2 rip blt pw) = Inl e \<longleftrightarrow>
   fst (compute_s_plane (self\<lparr>filter_type := Some ftype, band_type := Some btype, order := ord,
                       raw_alpha1 := alpha1,
                       raw_alpha2 := (case alpha2 of Some a \<Rightarrow> a | None \<Rightarrow> alpha1),
                       chebrip := rip, use_blt := blt, prewarp := pw\<rparr>)) = Some e"
  by (auto simp: design_def Let_def split: prod.splits option.splits)

lemma design_Inl_state:
  assumes "fst (design self ftype btype ord alpha1 alpha2 rip blt pw) = Inl e"
  shows "snd (design self ftype btype ord alpha1 alpha2 rip blt pw) =
   snd (compute_s_plane (self\<lparr>filter_type := Some ftype, band_type := Some btype, order := ord,
                       raw_alpha1 := alpha1,
                       raw_alpha2 := (case alpha2 of Some a \<Rightarrow> a | None \<Rightarrow> alpha1),
                       chebrip := rip, use_blt := blt, prewarp := pw\<rparr>))"
  using assms by (auto simp: design_def Let_def split: prod.splits option.splits)

lemma design_succeeds_iff:
  "(\<exists>xs ys self'. design self ftype btype ord alpha1 alpha2 rip blt pw = (Inr (xs, ys), self'))
   \<longleftrightarrow>
   fst (compute_s_plane (self\<lparr>filter_type := Some ftype, band_type := Some btype, order := ord,
                       raw_alpha1 := alpha1,
                       raw_alpha2 := (case alpha2 of Some a \<Rightarrow> a | None \<Rightarrow> alpha1),
                       chebrip := rip, use_blt := blt, prewarp := pw\<rparr>)) = None"
  by (auto simp: design_def Let_def split: prod.splits option.splits)

lemma compute_s_plane_Bu:
  assumes "filter_type self = Some ''Bu''" "real_of_int (2 * order self) < float_overflow"
  shows "fst (compute_s_plane self) = None"
  using assms by (simp add: compute_s_plane_def Let_def butterworth_loop_ok)

lemma design_Bu_succeeds:
  assumes "ord \<le> 1000"
  shows "\<exists>xs ys self'.
           design self ''Bu'' btype ord alpha1 alpha2 rip blt pw = (Inr (xs, ys), self')"
proof -
  have "real_of_int (2 * ord) \<le> 2 ^ 64" using assms by simp
  then have "real_of_int (2 * ord) < float_overflow" by (rule float_overflow_large)
  then show ?thesis
    by (simp only: design_succeeds_iff) (simp add: compute_s_plane_Bu)
qed

lemma design_success_proj:
  assumes "design self ftype btype ord alpha1 alpha2 rip blt pw = (Inr (xs, ys), self')"
  shows "\<not> isl (fst (design self ftype btype ord alpha1 alpha2 rip blt pw))"
    and "fst (projr (fst (design self ftype btype ord alpha1 alpha2 rip blt pw))) = xs"
    and "snd (projr (fst (design self ftype btype ord alpha1 alpha2 rip blt pw))) = ys"
    and "snd (design self ftype btype ord alpha1 alpha2 rip blt pw) = self'"
  by (simp_all add: assms)

text \<open>
  Claim C3. After every successful design run the last denominator coefficient returned
  is exactly \<open>-1\<close>: the denominator polynomial is monic, and it is negated and divided by
  the real part of its own last coefficient.
\<close>

theorem design_last_ycoeff:
  assumes "design self ftype btype ord alpha1 alpha2 rip blt pw = (Inr (xs, ys), self')"
  shows "ys \<noteq> [] \<and> last ys = - 1"
proof -
  from assms obtain s1 ps where
    "ys = map (\<lambda>c. - Re c) (expand (poles (zplane self')))"
    by (rule design_InrE)
  then show ?thesis by (simp add: last_map)
qed

theorem design_last_ycoeff_witness:
  "\<exists>xs ys self'.
     design MkFilter_init ''Bu'' ''Lp'' 4 (1 / 10) None (- 1) True True = (Inr (xs, ys), self')
     \<and> ys \<noteq> [] \<and> last ys = - 1"
proof -
  obtain xs ys self' where
    d: "design MkFilter_init ''Bu'' ''Lp'' 4 (1 / 10) None (- 1) True True = (Inr (xs, ys), self')"
    using design_Bu_succeeds by fastforce
  from design_last_ycoeff [OF d] d show ?thesis by blast
qed

text \<open>
  Claim C2, as the code has it. After a successful design run for one of the four band
  types, the numerator and the denominator have the same number of coefficients when
  the mapping is bilinear (the zeros are padded), and also under the matched
  z-transform for highpass and bandstop. Under the matched z-transform nothing is
  padded: a lowpass or bandpass design of order at least 1 returns fewer numerator
  than denominator coefficients.
\<close>

theorem design_coefficient_counts:
  assumes "design self ftype btype ord alpha1 alpha2 rip blt pw = (Inr (xs, ys), self')"
    and "btype = ''Lp'' \<or> btype = ''Hp'' \<or> btype = ''Bp'' \<or> btype = ''Bs''"
  shows "(blt \<or> btype = ''Hp'' \<or> btype = ''Bs'' \<longrightarrow> length xs = length ys)
       \<and> (\<not> blt \<and> (btype = ''Lp'' \<or> btype = ''Bp'')
            \<and> (ftype = ''Bu'' \<or> ftype = ''Be'' \<or> ftype = ''Ch'') \<and> 1 \<le> ord
          \<longrightarrow> length xs < length ys)"
proof -
  from design_zplane_lengths [OF assms] obtain n where
    n: "length (poles (zplane self')) = (if btype = ''Lp'' \<or> btype = ''Hp'' then n else 2 * n)"
    "length (zeros (zplane self')) =
       (if blt then (if btype = ''Lp'' \<or> btype = ''Hp'' then n else 2 * n)
        else if btype = ''Lp'' then 0
        else if btype = ''Hp'' \<or> btype = ''Bp'' then n else 2 * n)"
    "(ftype = ''Bu'' \<or> ftype = ''Be'' \<or> ftype = ''Ch'') \<and> 0 \<le> ord \<longrightarrow> n = nat ord"
    "length xs = length (zeros (zplane self')) + 1"
    "length ys = length (poles (zplane self')) + 1"
    by blast
  have "length xs = length ys" if "blt \<or> btype = ''Hp'' \<or> btype = ''Bs''"
    using that assms(2) n(1,2,4,5) by auto
  moreover have "length xs < length ys"
    if "\<not> blt \<and> (btype = ''Lp'' \<or> btype = ''Bp'')
            \<and> (ftype = ''Bu'' \<or> ftype = ''Be'' \<or> ftype = ''Ch'') \<and> 1 \<le> ord"
  proof -
    from that n(3) have "n = nat ord" "0 < nat ord" by auto
    with that n(1,2,4,5) show ?thesis by auto
  qed
  ultimately show ?thesis by blast
qed

theorem design_coefficient_counts_witness:
  "\<exists>xs ys self'.
     design MkFilter_init ''Bu'' ''Lp'' 4 (1 / 10) None (- 1) True True = (Inr (xs, ys), self')
     \<and> length xs = length ys"
proof -
  obtain xs ys self' where
    d: "design MkFilter_init ''Bu'' ''Lp'' 4 (1 / 10) None (- 1) True True = (Inr (xs, ys), self')"
    using design_Bu_succeeds by fastforce
  from design_coefficient_counts [OF d] d show ?thesis by blast
qed

text \<open>
  Counterexample to claim C2 as stated: a first-order Butterworth lowpass with corner
  0.1 under the matched z-transform succeeds and returns one numerator coefficient and
  two denominator coefficients.
\<close>

theorem design_coefficient_counts_counterexample:
  "\<not> isl (fst (design MkFilter_init ''Bu'' ''Lp'' 1 (1 / 10) None (- 1) False True))
   \<and> length (fst (projr (fst (design MkFilter_init ''Bu'' ''Lp'' 1 (1 / 10) None (- 1) False True)))) = 1
   \<and> length (snd (projr (fst (design MkFilter_init ''Bu'' ''Lp'' 1 (1 / 10) None (- 1) False True)))) = 2"
proof -
  obtain xs ys self' where
    d: "design MkFilter_init ''Bu'' ''Lp'' 1 (1 / 10) None (- 1) False True = (Inr (xs, ys), self')"
    using design_Bu_succeeds by fastforce
  from design_zplane_lengths [OF d] have "length xs = 1 \<and> length ys = 2"
    by auto
  then show ?thesis by (simp add: d)
qed

text \<open>
  Claim C6, as the code has it. After a successful design of order \<open>N \<ge> 0\<close> for one of the
  three families: lowpass and highpass have \<open>N\<close> digital poles, and \<open>N\<close> digital zeros
  under bilinear mapping; bandpass and bandstop have \<open>2N\<close> digital poles, and \<open>2N\<close>
  digital zeros under bilinear mapping, bandstop also under the matched z-transform;
  a bandpass under the matched z-transform has only \<open>N\<close> digital zeros.
\<close>

theorem design_pole_zero_counts:
  assumes "design self ftype btype ord alpha1 alpha2 rip blt pw = (Inr (xs, ys), self')"
    and "ftype = ''Bu'' \<or> ftype = ''Be'' \<or> ftype = ''Ch''"
    and "0 \<le> ord"
  shows "(btype = ''Lp'' \<or> btype = ''Hp'' \<longrightarrow>
            length (poles (zplane self')) = nat ord
            \<and> (blt \<longrightarrow> length (zeros (zplane self')) = nat ord))
       \<and> (btype = ''Bp'' \<or> btype = ''Bs'' \<longrightarrow>
            length (poles (zplane self')) = 2 * nat ord
            \<and> (blt \<or> btype = ''Bs'' \<longrightarrow> length (zeros (zplane self')) = 2 * nat ord))
       \<and> (btype = ''Bp'' \<and> \<not> blt \<longrightarrow> length (zeros (zplane self')) = nat ord)"
proof (cases "btype = ''Lp'' \<or> btype = ''Hp'' \<or> btype = ''Bp'' \<or> btype = ''Bs''")
  case False
  then show ?thesis by blast
next
  case True
  from design_zplane_lengths [OF assms(1) True] assms(2,3) obtain n where
    n: "length (poles (zplane self')) = (if btype = ''Lp'' \<or> btype = ''Hp'' then n else 2 * n)"
    "length (zeros (zplane self')) =
       (if blt then (if btype = ''Lp'' \<or> btype = ''Hp'' then n else 2 * n)
        else if btype = ''Lp'' then 0
        else if btype = ''Hp'' \<or> btype = ''Bp'' then n else 2 * n)"
    "n = nat ord"
    by blast
  show ?thesis unfolding n(1,2) n(3) by auto
qed

theorem design_pole_zero_counts_witness:
  "\<exists>xs ys self'.
     design MkFilter_init ''Bu'' ''Bp'' 4 (15 / 100) (Some (25 / 100)) (- 1) True True
       = (Inr (xs, ys), self')
     \<and> length (poles (zplane self')) = 8 \<and> length (zeros (zplane self')) = 8"
proof -
  obtain xs ys self' where
    d: "design MkFilter_init ''Bu'' ''Bp'' 4 (15 / 100) (Some (25 / 100)) (- 1) True True
          = (Inr (xs, ys), self')"
    using design_Bu_succeeds by fastforce
  from design_pole_zero_counts [OF d] d show ?thesis by auto
qed

text \<open>
  Counterexample to claim C6 as stated: a first-order Butterworth bandpass with corners
  0.1 and 0.2 under the matched z-transform succeeds with two digital poles and one
  digital zero.
\<close>

theorem design_pole_zero_counts_counterexample:
  "\<not> isl (fst (design MkFilter_init ''Bu'' ''Bp'' 1 (1 / 10) (Some (1 / 5)) (- 1) False True))
   \<and> length (poles (zplane (snd
         (design MkFilter_init ''Bu'' ''Bp'' 1 (1 / 10) (Some (1 / 5)) (- 1) False True)))) = 2
   \<and> length (zeros (zplane (snd
         (design MkFilter_init ''Bu'' ''Bp'' 1 (1 / 10) (Some (1 / 5)) (- 1) False True)))) = 1"
proof -
  obtain xs ys self' where
    d: "design MkFilter_init ''Bu'' ''Bp'' 1 (1 / 10) (Some (1 / 5)) (- 1) False True
          = (Inr (xs, ys), self')"
    using design_Bu_succeeds by fastforce
  from design_zplane_lengths [OF d]
  have "length (poles (zplane self')) = 2 \<and> length (zeros (zplane self')) = 1"
    by auto
  then show ?thesis by (simp add: d)
qed

section \<open>The Chebyshev checks\<close>

lemma design_error_coeffs_unchanged:
  assumes "isl (fst (design self ftype btype ord alpha1 alpha2 rip blt pw))"
  shows "xcoeffs (snd (design self ftype btype ord alpha1 alpha2 rip blt pw)) = xcoeffs self
       \<and> ycoeffs (snd (design self ftype btype ord alpha1 alpha2 rip blt pw)) = ycoeffs self"
proof -
  let ?s0 = "self\<lparr>filter_type := Some ftype, band_type := Some btype, order := ord,
                       raw_alpha1 := alpha1,
                       raw_alpha2 := (case alpha2 of Some a \<Rightarrow> a | None \<Rightarrow> alpha1),
                       chebrip := rip, use_blt := blt, prewarp := pw\<rparr>"
  from assms obtain e where e: "fst (design self ftype btype ord alpha1 alpha2 rip blt pw) = Inl e"
    by (auto simp: isl_def)
  obtain r s1 where c: "compute_s_plane ?s0 = (r, s1)" by (cases "compute_s_plane ?s0")
  from compute_s_plane_frame [OF c] obtain ps where
    s1: "s1 = ?s0\<lparr>splane := (splane ?s0)\<lparr>poles := ps\<rparr>\<rparr>" by blast
  from design_Inl_state [OF e] c have "snd (design self ftype btype ord alpha1 alpha2 rip blt pw) = s1"
    by simp
  then show ?thesis by (simp add: s1)
qed

text \<open>The outcome of the prototype stage for the Chebyshev family, case by case.\<close>

lemma compute_s_plane_Ch_ripple:
  assumes "filter_type self = Some ''Ch''" "0 \<le> chebrip self"
  shows "fst (compute_s_plane self) \<noteq> None"
    and "real_of_int (2 * order self) < float_overflow \<Longrightarrow>
           fst (compute_s_plane self) = Some (ValueError RippleNotNegative)"
  using assms
  by (auto simp: compute_s_plane_def Let_def butterworth_loop_ok split: sum.splits)

lemma compute_s_plane_Ch_y:
  assumes "filter_type self = Some ''Ch''" "chebrip self < 0" "order self \<noteq> 0"
    and "chebyshev_y (chebrip self) (order self) = Inr y" "y \<le> 0"
  shows "fst (compute_s_plane self) = Some (ValueError YNotPositive)"
proof -
  have "order self < 0"
  proof (rule ccontr)
    assume "\<not> order self < 0"
    with assms(3) have "0 < order self" by simp
    from chebyshev_y_pos [OF assms(2) this assms(4)] assms(5) show False by simp
  qed
  then have "butterworth_loop (order self) [] = Inr []"
    by (intro butterworth_loop_empty) simp
  with assms show ?thesis
    by (simp add: compute_s_plane_def Let_def)
qed

lemma compute_s_plane_Ch_not_ripple:
  assumes "filter_type self = Some ''Ch''" "chebrip self < 0"
  shows "fst (compute_s_plane self) \<noteq> Some (ValueError RippleNotNegative)"
  using assms
  by (auto simp: compute_s_plane_def Let_def
           split: sum.splits if_splits dest: butterworth_loop_Inl chebyshev_y_Inl py_pow_Inl)

lemma compute_s_plane_Ch_overflow:
  assumes "filter_type self = Some ''Ch''" "chebrip self < 0"
    and "float_overflow \<le> 10 powr (- chebrip self / 10)"
    and "real_of_int (2 * order self) < float_overflow"
  shows "fst (compute_s_plane self) = Some OverflowError"
  using assms
  by (auto simp: compute_s_plane_def Let_def butterworth_loop_ok chebyshev_y_def py_pow_def
           split: sum.splits)

lemma compute_s_plane_Ch_succeeds:
  assumes "filter_type self = Some ''Ch''" "chebrip self < 0"
    and "10 powr (- chebrip self / 10) < float_overflow"
    and "1 \<le> order self" "order self \<le> 10"
  shows "fst (compute_s_plane self) = None"
proof -
  have o: "real_of_int (2 * order self) \<le> 2 ^ 64" "\<bar>real_of_int (order self)\<bar> \<le> 2 ^ 64"
    using assms(4,5) by simp_all
  then have o': "real_of_int (2 * order self) < float_overflow"
    "\<bar>real_of_int (order self)\<bar> < float_overflow"
    by (simp_all only: float_overflow_large)
  define y where
    "y = arsinh (1 / sqrt (10 powr (- chebrip self / 10) - 1)) / real_of_int (order self)"
  have y: "chebyshev_y (chebrip self) (order self) = Inr y"
    unfolding y_def using assms(3) o'(2) by (rule chebyshev_y_ok)
  have "0 < y" using chebyshev_y_pos [OF assms(2) _ y] assms(4) by simp
  then have ny: "\<not> y \<le> 0" by simp
  have bl: "butterworth_loop (order self) [] = Inr (butterworth_exact (order self) [])"
    using o'(1) by (rule butterworth_loop_ok)
  have o0: "order self \<noteq> 0" using assms(4) by simp
  show ?thesis
    using assms(1,2) ny o0 by (simp add: compute_s_plane_def Let_def bl y)
qed

text \<open>
  Claim C5. For family Chebyshev, design fails whenever the ripple is not negative, for
  every order, and the exception is the \<open>ValueError\<close> of the ripple check whenever the
  order is one the Butterworth loop can convert to a float; it fails with the
  \<open>ValueError\<close> of the second check whenever the warp factor \<open>y\<close> derived for a nonzero
  order is not positive. A failed call returns no coefficients and leaves the
  coefficient fields of the object as they were. For a negative ripple the ripple error
  is not raised; with an order from 1 to 10 the call then succeeds, unless the power
  \<open>10.0 ** (-chebrip / 10.0)\<close> overflows, which raises \<open>OverflowError\<close>.
\<close>

theorem design_chebyshev_checks:
  "(0 \<le> rip \<longrightarrow> isl (fst (design self ''Ch'' btype ord alpha1 alpha2 rip blt pw)))
   \<and> (0 \<le> rip \<and> real_of_int (2 * ord) < float_overflow \<longrightarrow>
      fst (design self ''Ch'' btype ord alpha1 alpha2 rip blt pw)
        = Inl (ValueError RippleNotNegative))
   \<and> (rip < 0 \<and> ord \<noteq> 0 \<and> chebyshev_y rip ord = Inr y \<and> y \<le> 0 \<longrightarrow>
      fst (design self ''Ch'' btype ord alpha1 alpha2 rip blt pw)
        = Inl (ValueError YNotPositive))
   \<and> (isl (fst (design self ''Ch'' btype ord alpha1 alpha2 rip blt pw)) \<longrightarrow>
      xcoeffs (snd (design self ''Ch'' btype ord alpha1 alpha2 rip blt pw)) = xcoeffs self
      \<and> ycoeffs (snd (design self ''Ch'' btype ord alpha1 alpha2 rip blt pw)) = ycoeffs self)
   \<and> (rip < 0 \<longrightarrow>
      fst (design self ''Ch'' btype ord alpha1 alpha2 rip blt pw)
        \<noteq> Inl (ValueError RippleNotNegative))
   \<and> (rip < 0 \<and> 1 \<le> ord \<and> ord \<le> 10 \<and> 10 powr (- rip / 10) < float_overflow \<longrightarrow>
      \<not> isl (fst (design self ''Ch'' btype ord alpha1 alpha2 rip blt pw)))
   \<and> (rip < 0 \<and> real_of_int (2 * ord) < float_overflow
        \<and> float_overflow \<le> 10 powr (- rip / 10) \<longrightarrow>
      fst (design self ''Ch'' btype ord alpha1 alpha2 rip blt pw) = Inl OverflowError)"
proof -
  let ?s0 = "self\<lparr>filter_type := Some ''Ch'', band_type := Some btype,
                       order := ord, raw_alpha1 := alpha1,
                       raw_alpha2 := (case alpha2 of Some a \<Rightarrow> a | None \<Rightarrow> alpha1),
                       chebrip := rip, use_blt := blt, prewarp := pw\<rparr>"
  let ?D = "design self ''Ch'' btype ord alpha1 alpha2 rip blt pw"
  have ft: "filter_type ?s0 = Some ''Ch''" by simp
  have c1: "isl (fst ?D)" if "0 \<le> rip"
  proof -
    from that have "fst (compute_s_plane ?s0) \<noteq> None"
      by (intro compute_s_plane_Ch_ripple(1)) simp_all
    then obtain e where "fst (compute_s_plane ?s0) = Some e" by blast
    then have "fst ?D = Inl e" by (simp only: design_fst)
    then show ?thesis by simp
  qed
  have c2: "fst ?D = Inl (ValueError RippleNotNegative)"
    if "0 \<le> rip \<and> real_of_int (2 * ord) < float_overflow"
  proof -
    from that have "fst (compute_s_plane ?s0) = Some (ValueError RippleNotNegative)"
      by (intro compute_s_plane_Ch_ripple(2)) simp_all
    then show ?thesis by (simp only: design_fst)
  qed
  have c3: "fst ?D = Inl (ValueError YNotPositive)"
    if "rip < 0 \<and> ord \<noteq> 0 \<and> chebyshev_y rip ord = Inr y \<and> y \<le> 0"
  proof -
    from that have "fst (compute_s_plane ?s0) = Some (ValueError YNotPositive)"
      by (intro compute_s_plane_Ch_y [where y = y]) simp_all
    then show ?thesis by (simp only: design_fst)
  qed
  have c4: "xcoeffs (snd ?D) = xcoeffs self \<and> ycoeffs (snd ?D) = ycoeffs self"
    if "isl (fst ?D)"
    using that by (rule design_error_coeffs_unchanged)
  have c5: "fst ?D \<noteq> Inl (ValueError RippleNotNegative)" if "rip < 0"
  proof -
    from that have "fst (compute_s_plane ?s0) \<noteq> Some (ValueError RippleNotNegative)"
      by (intro compute_s_plane_Ch_not_ripple) simp_all
    then show ?thesis by (simp only: design_fst) simp
  qed
  have c6: "\<not> isl (fst ?D)"
    if "rip < 0 \<and> 1 \<le> ord \<and> ord \<le> 10 \<and> 10 powr (- rip / 10) < float_overflow"
  proof -
    from that have "fst (compute_s_plane ?s0) = None"
      by (intro compute_s_plane_Ch_succeeds) simp_all
    then obtain xs ys self' where "?D = (Inr (xs, ys), self')"
      unfolding design_succeeds_iff [symmetric] by blast
    then show ?thesis by simp
  qed
  have c7: "fst ?D = Inl OverflowError"
    if "rip < 0 \<and> real_of_int (2 * ord) < float_overflow
        \<and> float_overflow \<le> 10 powr (- rip / 10)"
  proof -
    from that have "fst (compute_s_plane ?s0) = Some OverflowError"
      by (intro compute_s_plane_Ch_overflow) simp_all
    then show ?thesis by (simp only: design_fst)
  qed
  from c1 c2 c3 c4 c5 c6 c7 show ?thesis by blast
qed

lemma small_ripple_power: "10 powr (- (- 1) / 10) < float_overflow"
proof -
  have "(10::real) powr (- (- 1) / 10) \<le> 10 powr 1"
    by (intro powr_mono) simp_all
  also have "\<dots> \<le> 2 ^ 64" by simp
  finally show ?thesis by (rule float_overflow_large)
qed

lemma large_ripple_power: "float_overflow \<le> 10 powr (- (- 4000) / 10)"
proof -
  have "(10::real) powr (- (- 4000) / 10) = 10 powr 400" by simp
  also have "\<dots> = 10 ^ 400" by (simp only: powr_numeral zero_less_numeral)
  finally have "(10::real) powr (- (- 4000) / 10) = 10 ^ 400" .
  moreover have "(2::real) ^ 1024 - 2 ^ 970 \<le> 10 ^ 400" by simp
  ultimately show ?thesis by (simp only: float_overflow_def)
qed

text \<open>
  The theorem on a fresh object: at ripple 0 (the ripple error, nothing stored on the
  object), at ripple -1 with order 4 (success), at ripple -1 with order -1 (the warp
  factor is negative), and at ripple -4000 with order 4 (the power overflows).
\<close>

theorem design_chebyshev_checks_witness:
  "fst (design MkFilter_init ''Ch'' ''Lp'' 4 (15 / 100) None 0 True True)
     = Inl (ValueError RippleNotNegative)
   \<and> xcoeffs (snd (design MkFilter_init ''Ch'' ''Lp'' 4 (15 / 100) None 0 True True)) = None
   \<and> ycoeffs (snd (design MkFilter_init ''Ch'' ''Lp'' 4 (15 / 100) None 0 True True)) = None
   \<and> \<not> isl (fst (design MkFilter_init ''Ch'' ''Lp'' 4 (15 / 100) None (- 1) True True))
   \<and> fst (design MkFilter_init ''Ch'' ''Lp'' (- 1) (15 / 100) None (- 1) True True)
     = Inl (ValueError YNotPositive)
   \<and> fst (design MkFilter_init ''Ch'' ''Lp'' 4 (15 / 100) None (- 4000) True True)
     = Inl OverflowError"
proof -
  have o4: "real_of_int (2 * 4) < float_overflow"
    by (rule float_overflow_large) simp
  have o1: "\<bar>real_of_int (- 1)\<bar> < float_overflow"
    by (rule float_overflow_large) simp
  obtain y where y: "chebyshev_y (- 1) (- 1) = Inr y"
    using chebyshev_y_ok [OF small_ripple_power o1] by blast
  then have y0: "y \<le> 0" using chebyshev_y_neg [of "- 1" "- 1" y] by simp
  have init: "xcoeffs MkFilter_init = None" "ycoeffs MkFilter_init = None"
    by (simp_all add: MkFilter_init_def)
  from design_chebyshev_checks [of 0 MkFilter_init "''Lp''" 4 "15 / 100" None True True] o4
  have "fst (design MkFilter_init ''Ch'' ''Lp'' 4 (15 / 100) None 0 True True)
     = Inl (ValueError RippleNotNegative)
   \<and> xcoeffs (snd (design MkFilter_init ''Ch'' ''Lp'' 4 (15 / 100) None 0 True True)) = None
   \<and> ycoeffs (snd (design MkFilter_init ''Ch'' ''Lp'' 4 (15 / 100) None 0 True True)) = None"
    by (simp add: init)
  moreover
  from design_chebyshev_checks [of "- 1" MkFilter_init "''Lp''" 4 "15 / 100" None True True]
    small_ripple_power
  have "\<not> isl (fst (design MkFilter_init ''Ch'' ''Lp'' 4 (15 / 100) None (- 1) True True))"
    by simp
  moreover
  from design_chebyshev_checks [of "- 1" MkFilter_init "''Lp''" "- 1" "15 / 100" None True True y]
    y y0
  have "fst (design MkFilter_init ''Ch'' ''Lp'' (- 1) (15 / 100) None (- 1) True True)
     = Inl (ValueError YNotPositive)"
    by simp
  moreover
  from design_chebyshev_checks [of "- 4000" MkFilter_init "''Lp''" 4 "15 / 100" None True True]
    large_ripple_power o4
  have "fst (design MkFilter_init ''Ch'' ''Lp'' 4 (15 / 100) None (- 4000) True True)
     = Inl OverflowError"
    by simp
  ultimately show ?thesis by blast
qed

section \<open>The ripple argument outside the Chebyshev family\<close>

lemma compute_s_plane_chebrip:
  assumes "filter_type self \<noteq> Some ''Ch''"
  shows "compute_s_plane (self\<lparr>chebrip := c\<rparr>)
       = (fst (compute_s_plane self), (snd (compute_s_plane self))\<lparr>chebrip := c\<rparr>)"
  using assms by (simp add: compute_s_plane_def Let_def split: sum.splits)

lemma prewarp_frequencies_chebrip:
  "prewarp_frequencies (self\<lparr>chebrip := c\<rparr>) = (prewarp_frequencies self)\<lparr>chebrip := c\<rparr>"
  by (simp add: prewarp_frequencies_def)

lemma normalize_splane_chebrip:
  "normalize_splane (self\<lparr>chebrip := c\<rparr>) = (normalize_splane self)\<lparr>chebrip := c\<rparr>"
  by (simp add: normalize_splane_def Let_def split: prod.splits)

lemma compute_z_chebrip:
  "compute_z_blt (self\<lparr>chebrip := c\<rparr>) = (compute_z_blt self)\<lparr>chebrip := c\<rparr>"
  "compute_z_mzt (self\<lparr>chebrip := c\<rparr>) = (compute_z_mzt self)\<lparr>chebrip := c\<rparr>"
  by (simp_all add: compute_z_blt_eq compute_z_mzt_eq)

lemma expand_poly_chebrip:
  "expand_poly (self\<lparr>chebrip := c\<rparr>) = (expand_poly self)\<lparr>chebrip := c\<rparr>"
  by (simp add: expand_poly_def Let_def)

lemma design_chebrip:
  assumes "ftype \<noteq> ''Ch''"
  shows "design self ftype btype ord alpha1 alpha2 rip2 blt pw
       = (fst (design self ftype btype ord alpha1 alpha2 rip1 blt pw),
          (snd (design self ftype btype ord alpha1 alpha2 rip1 blt pw))\<lparr>chebrip := rip2\<rparr>)"
proof -
  let ?s0 = "\<lambda>rip. self\<lparr>filter_type := Some ftype, band_type := Some btype, order := ord,
                       raw_alpha1 := alpha1,
                       raw_alpha2 := (case alpha2 of Some a \<Rightarrow> a | None \<Rightarrow> alpha1),
                       chebrip := rip, use_blt := blt, prewarp := pw\<rparr>"
  have upd: "?s0 rip2 = (?s0 rip1)\<lparr>chebrip := rip2\<rparr>" by simp
  have ft: "filter_type (?s0 rip1) \<noteq> Some ''Ch''" using assms by simp
  obtain r s1 where c: "compute_s_plane (?s0 rip1) = (r, s1)"
    by (cases "compute_s_plane (?s0 rip1)")
  have c2: "compute_s_plane (?s0 rip2) = (r, s1\<lparr>chebrip := rip2\<rparr>)"
    unfolding upd compute_s_plane_chebrip [OF ft] c by simp
  show ?thesis
  proof (cases r)
    case None
    with c c2 show ?thesis
      by (cases blt)
         (simp_all add: design_def Let_def prewarp_frequencies_chebrip normalize_splane_chebrip
            compute_z_chebrip expand_poly_chebrip)
  next
    case (Some e)
    with c c2 show ?thesis by (simp add: design_def Let_def)
  qed
qed

text \<open>
  Claim C10. For family Butterworth or Bessel the ripple argument has no effect: two
  calls that differ only in \<open>chebrip\<close> return the same result and leave objects that
  differ only in the stored \<open>chebrip\<close> field, so the three reference gains and the
  passband gain agree; no \<open>ValueError\<close> is raised whatever the ripple is.
\<close>

theorem design_ripple_unused:
  assumes "ftype = ''Bu'' \<or> ftype = ''Be''"
  shows "fst (design self ftype btype ord alpha1 alpha2 rip2 blt pw)
           = fst (design self ftype btype ord alpha1 alpha2 rip1 blt pw)
       \<and> snd (design self ftype btype ord alpha1 alpha2 rip2 blt pw)
           = (snd (design self ftype btype ord alpha1 alpha2 rip1 blt pw))\<lparr>chebrip := rip2\<rparr>
       \<and> dc_gain (snd (design self ftype btype ord alpha1 alpha2 rip2 blt pw))
           = dc_gain (snd (design self ftype btype ord alpha1 alpha2 rip1 blt pw))
       \<and> fc_gain (snd (design self ftype btype ord alpha1 alpha2 rip2 blt pw))
           = fc_gain (snd (design self ftype btype ord alpha1 alpha2 rip1 blt pw))
       \<and> hf_gain (snd (design self ftype btype ord alpha1 alpha2 rip2 blt pw))
           = hf_gain (snd (design self ftype btype ord alpha1 alpha2 rip1 blt pw))
       \<and> get_gain (snd (design self ftype btype ord alpha1 alpha2 rip2 blt pw))
           = get_gain (snd (design self ftype btype ord alpha1 alpha2 rip1 blt pw))
       \<and> (\<forall>v. fst (design self ftype btype ord alpha1 alpha2 rip1 blt pw) \<noteq> Inl (ValueError v))"
proof -
  from assms have ft: "ftype \<noteq> ''Ch''" by auto
  have "fst (design self ftype btype ord alpha1 alpha2 rip1 blt pw) \<noteq> Inl (ValueError v)" for v
  proof
    assume "fst (design self ftype btype ord alpha1 alpha2 rip1 blt pw) = Inl (ValueError v)"
    then obtain s where "compute_s_plane (self\<lparr>filter_type := Some ftype, band_type := Some btype,
                       order := ord, raw_alpha1 := alpha1,
                       raw_alpha2 := (case alpha2 of Some a \<Rightarrow> a | None \<Rightarrow> alpha1),
                       chebrip := rip1, use_blt := blt, prewarp := pw\<rparr>) = (Some (ValueError v), s)"
      unfolding design_fst by (metis prod.collapse)
    from compute_s_plane_error [OF this] ft show False by simp
  qed
  then show ?thesis
    by (simp add: design_chebrip [OF ft, of self btype ord alpha1 alpha2 rip2 blt pw rip1] get_gain_def)
qed

theorem design_ripple_unused_witness:
  "fst (design MkFilter_init ''Bu'' ''Lp'' 4 (1 / 10) None 3 True True)
     = fst (design MkFilter_init ''Bu'' ''Lp'' 4 (1 / 10) None (- 1) True True)
   \<and> get_gain (snd (design MkFilter_init ''Bu'' ''Lp'' 4 (1 / 10) None 3 True True))
     = get_gain (snd (design MkFilter_init ''Bu'' ''Lp'' 4 (1 / 10) None (- 1) True True))
   \<and> \<not> isl (fst (design MkFilter_init ''Bu'' ''Lp'' 4 (1 / 10) None 3 True True))"
proof -
  obtain xs ys self' where
    d: "design MkFilter_init ''Bu'' ''Lp'' 4 (1 / 10) None 3 True True = (Inr (xs, ys), self')"
    using design_Bu_succeeds by fastforce
  have "\<not> isl (fst (design MkFilter_init ''Bu'' ''Lp'' 4 (1 / 10) None 3 True True))"
    by (simp add: d)
  with design_ripple_unused [of "''Bu''" MkFilter_init "''Lp''" 4 "1 / 10" None 3 True True "- 1"]
  show ?thesis by blast
qed

section \<open>Validation of the arguments\<close>

lemma design_errors:
  assumes "fst (design self ftype btype ord alpha1 alpha2 rip blt pw) = Inl e"
  shows "(ftype = ''Ch'' \<and> (\<exists>v. e = ValueError v))
       \<or> ((ftype = ''Bu'' \<or> ftype = ''Ch'') \<and> e = OverflowError)
       \<or> (ftype = ''Be'' \<and> e = IndexError)"
proof -
  from assms obtain s where "compute_s_plane (self\<lparr>filter_type := Some ftype, band_type := Some btype,
                       order := ord, raw_alpha1 := alpha1,
                       raw_alpha2 := (case alpha2 of Some a \<Rightarrow> a | None \<Rightarrow> alpha1),
                       chebrip := rip, use_blt := blt, prewarp := pw\<rparr>) = (Some e, s)"
    unfolding design_fst by (metis prod.collapse)
  from compute_s_plane_error [OF this] show ?thesis by simp
qed

lemma design_Bu_not_isl:
  assumes "ord \<le> 1000"
  shows "\<not> isl (fst (design self ''Bu'' btype ord alpha1 alpha2 rip blt pw))"
proof -
  from design_Bu_succeeds [OF assms] obtain xs ys self' where
    "design self ''Bu'' btype ord alpha1 alpha2 rip blt pw = (Inr (xs, ys), self')"
    by blast
  then show ?thesis by simp
qed

lemma main_Rejected_iff:
  "(\<exists>msg. main args = Rejected msg) \<longleftrightarrow>
     arg_order args < 1 \<or> arg_order args > 10
     \<or> ((arg_band_type args = ''Bp'' \<or> arg_band_type args = ''Bs'') \<and> length (arg_alpha args) \<noteq> 2)
     \<or> ((arg_band_type args = ''Lp'' \<or> arg_band_type args = ''Hp'') \<and> length (arg_alpha args) \<noteq> 1)"
  by (auto simp: main_def MAXORDER_def Let_def split: list.splits prod.splits sum.splits family_arg.splits)

text \<open>
  Claim C1, as the code has it. The checks are made by the command-line entry point,
  not by \<open>design\<close>: \<open>main\<close> rejects the arguments, before a filter object exists and so
  before any pole is computed, exactly when the order is outside \<open>[1, 10]\<close> or the number
  of corner frequencies does not fit the band type, and then returns status 1; the
  range of the corner frequencies is not a ground for rejection. \<open>design\<close> itself
  checks none of these: a Butterworth call succeeds for every order up to 1000, zero
  and negative orders included, whatever the corner frequencies are, and the only
  exceptions of \<open>design\<close> are the \<open>ValueError\<close>s of the Chebyshev branch, the
  \<open>OverflowError\<close> of Python's float arithmetic in the Butterworth and Chebyshev
  computations, and the \<open>IndexError\<close> of the Bessel table.
\<close>

theorem main_validates_design_does_not:
  "((\<exists>msg. main args = Rejected msg) \<longleftrightarrow>
      arg_order args < 1 \<or> arg_order args > 10
      \<or> ((arg_band_type args = ''Bp'' \<or> arg_band_type args = ''Bs'')
          \<and> length (arg_alpha args) \<noteq> 2)
      \<or> ((arg_band_type args = ''Lp'' \<or> arg_band_type args = ''Hp'')
          \<and> length (arg_alpha args) \<noteq> 1))
   \<and> ((\<exists>msg. main args = Rejected msg) \<longrightarrow> exit_status (main args) = 1)
   \<and> (ord \<le> 1000 \<longrightarrow>
        \<not> isl (fst (design self ''Bu'' btype ord alpha1 alpha2 rip blt pw)))
   \<and> (fst (design self ftype btype ord alpha1 alpha2 rip blt pw) = Inl e \<longrightarrow>
        (ftype = ''Ch'' \<and> (\<exists>v. e = ValueError v))
        \<or> ((ftype = ''Bu'' \<or> ftype = ''Ch'') \<and> e = OverflowError)
        \<or> (ftype = ''Be'' \<and> e = IndexError))"
proof (intro conjI impI)
  show "(\<exists>msg. main args = Rejected msg) \<longleftrightarrow>
      arg_order args < 1 \<or> arg_order args > 10
      \<or> ((arg_band_type args = ''Bp'' \<or> arg_band_type args = ''Bs'')
          \<and> length (arg_alpha args) \<noteq> 2)
      \<or> ((arg_band_type args = ''Lp'' \<or> arg_band_type args = ''Hp'')
          \<and> length (arg_alpha args) \<noteq> 1)"
    by (rule main_Rejected_iff)
next
  assume "\<exists>msg. main args = Rejected msg"
  then show "exit_status (main args) = 1" by (auto simp: exit_status_def)
next
  assume "ord \<le> 1000"
  then show "\<not> isl (fst (design self ''Bu'' btype ord alpha1 alpha2 rip blt pw))"
    by (rule design_Bu_not_isl)
next
  assume "fst (design self ftype btype ord alpha1 alpha2 rip blt pw) = Inl e"
  then show "(ftype = ''Ch'' \<and> (\<exists>v. e = ValueError v))
        \<or> ((ftype = ''Bu'' \<or> ftype = ''Ch'') \<and> e = OverflowError)
        \<or> (ftype = ''Be'' \<and> e = IndexError)"
    by (rule design_errors)
qed

text \<open>
  The theorem at order 0 on the command line (rejected, status 1), at a Butterworth
  call of \<open>design\<close> with order 11 and corner 0.7 (no failure), and at a Chebyshev call
  with ripple 0 (a \<open>ValueError\<close>).
\<close>

theorem main_validates_design_does_not_witness:
  "(\<exists>msg. main \<lparr>arg_family = Arg_Bu, arg_band_type = ''Lp'', arg_order = 0,
                 arg_alpha = [1 / 10], arg_use_blt = True, arg_prewarp = True\<rparr> = Rejected msg)
   \<and> exit_status (main \<lparr>arg_family = Arg_Bu, arg_band_type = ''Lp'', arg_order = 0,
                 arg_alpha = [1 / 10], arg_use_blt = True, arg_prewarp = True\<rparr>) = 1
   \<and> \<not> isl (fst (design MkFilter_init ''Bu'' ''Lp'' 11 (7 / 10) None (- 1) True True))
   \<and> fst (design MkFilter_init ''Ch'' ''Lp'' 4 (1 / 10) None 0 True True)
        = Inl (ValueError RippleNotNegative)"
proof -
  let ?a = "\<lparr>arg_family = Arg_Bu, arg_band_type = ''Lp'', arg_order = 0,
                 arg_alpha = [1 / 10], arg_use_blt = True, arg_prewarp = True\<rparr>"
  have e: "fst (design MkFilter_init ''Ch'' ''Lp'' 4 (1 / 10) None 0 True True)
                = Inl (ValueError RippleNotNegative)"
  proof -
    have "real_of_int (2 * 4) < float_overflow" by (rule float_overflow_large) simp
    then have "fst (compute_s_plane (MkFilter_init\<lparr>filter_type := Some ''Ch'',
                       band_type := Some ''Lp'', order := 4, raw_alpha1 := 1 / 10,
                       raw_alpha2 := (case None of Some a \<Rightarrow> a | None \<Rightarrow> 1 / 10),
                       chebrip := 0, use_blt := True, prewarp := True\<rparr>))
                = Some (ValueError RippleNotNegative)"
      by (intro compute_s_plane_Ch_ripple(2)) simp_all
    then show ?thesis by (simp only: design_fst)
  qed
  note t1 = main_validates_design_does_not
      [of ?a 11 MkFilter_init "''Lp''" "7 / 10" None "- 1" True True "''Bu''" IndexError]
  note t2 = main_validates_design_does_not
      [of ?a 4 MkFilter_init "''Lp''" "1 / 10" None 0 True True "''Ch''"
          "ValueError RippleNotNegative"]
  from t1 have m: "\<exists>msg. main ?a = Rejected msg" by simp
  with t1 have r: "exit_status (main ?a) = 1" by blast
  from t1 have b: "\<not> isl (fst (design MkFilter_init ''Bu'' ''Lp'' 11 (7 / 10) None (- 1) True True))"
    by simp
  from t2 e have "''Ch'' = ''Ch'' \<and> (\<exists>v. ValueError RippleNotNegative = ValueError v)"
    by simp
  with m r b e show ?thesis by blast
qed

text \<open>
  Counterexample to claim C1 as stated: \<open>design\<close> called with order 0 (outside
  \<open>[1, 10]\<close>) does not fail; it returns the coefficients \<open>[1]\<close> and \<open>[-1]\<close>.
\<close>

theorem design_order_zero_counterexample:
  "fst (design MkFilter_init ''Bu'' ''Lp'' 0 (1 / 10) None (- 1) True True) = Inr ([1], [- 1])"
proof -
  obtain xs ys self' where
    d: "design MkFilter_init ''Bu'' ''Lp'' 0 (1 / 10) None (- 1) True True = (Inr (xs, ys), self')"
    using design_Bu_succeeds by fastforce
  from design_zplane_lengths [OF d]
  have "poles (zplane self') = [] \<and> zeros (zplane self') = []" by auto
  moreover from d obtain s1 ps where
    "xs = map Re (expand (zeros (zplane self')))"
    "ys = map (\<lambda>c. - Re c) (expand (poles (zplane self')))"
    by (rule design_InrE)
  ultimately have "xs = [1]" "ys = [- 1]" by (simp_all add: expand_def)
  then show ?thesis by (simp add: d)
qed

section \<open>Independence from the state of the object\<close>

lemma compute_s_plane_cong:
  assumes "filter_type t = filter_type s" "order t = order s" "chebrip t = chebrip s"
  shows "fst (compute_s_plane t) = fst (compute_s_plane s)"
    and "fst (compute_s_plane s) = None \<Longrightarrow>
           poles (splane (snd (compute_s_plane t))) = poles (splane (snd (compute_s_plane s)))"
  using assms
  by (auto simp: compute_s_plane_def Let_def split: sum.splits if_splits)

lemma pipeline_init:
  assumes "btype = ''Lp'' \<or> btype = ''Hp'' \<or> btype = ''Bp'' \<or> btype = ''Bs''"
  shows "expand_poly ((if blt then compute_z_blt else compute_z_mzt)
           (normalize_splane (prewarp_frequencies
             (s\<lparr>filter_type := Some ftype, band_type := Some btype, order := ord,
                raw_alpha1 := a1, raw_alpha2 := a2, chebrip := rip, use_blt := blt, prewarp := pw,
                splane := (splane s)\<lparr>poles := ps\<rparr>\<rparr>))))
       = expand_poly ((if blt then compute_z_blt else compute_z_mzt)
           (normalize_splane (prewarp_frequencies
             (MkFilter_init\<lparr>filter_type := Some ftype, band_type := Some btype, order := ord,
                raw_alpha1 := a1, raw_alpha2 := a2, chebrip := rip, use_blt := blt, prewarp := pw,
                splane := (splane MkFilter_init)\<lparr>poles := ps\<rparr>\<rparr>))))"
proof -
  obtain sp zp where s: "s = MkFilter_init\<lparr>splane := sp, zplane := zp, order := order s,
      raw_alpha1 := raw_alpha1 s, raw_alpha2 := raw_alpha2 s,
      warped_alpha1 := warped_alpha1 s, warped_alpha2 := warped_alpha2 s, chebrip := chebrip s,
      filter_type := filter_type s, band_type := band_type s, use_blt := use_blt s,
      prewarp := prewarp s, xcoeffs := xcoeffs s, ycoeffs := ycoeffs s, dc_gain := dc_gain s,
      fc_gain := fc_gain s, hf_gain := hf_gain s\<rparr>"
    by (cases s) (simp add: MkFilter_init_def)
  obtain p1 z1 where sp: "sp = \<lparr>poles = p1, zeros = z1\<rparr>" by (cases sp) simp
  obtain p2 z2 where zp: "zp = \<lparr>poles = p2, zeros = z2\<rparr>" by (cases zp) simp
  from assms show ?thesis
    by (subst s, cases blt)
       (auto simp: sp zp MkFilter_init_def PoleZeroRep_init_def prewarp_frequencies_def
          normalize_Lp normalize_Hp normalize_Bp normalize_Bs
          compute_z_blt_eq compute_z_mzt_eq expand_poly_def Let_def)
qed


lemma design_from_init:
  assumes "btype = ''Lp'' \<or> btype = ''Hp'' \<or> btype = ''Bp'' \<or> btype = ''Bs''"
  shows "fst (design s ftype btype ord alpha1 alpha2 rip blt pw)
           = fst (design MkFilter_init ftype btype ord alpha1 alpha2 rip blt pw)"
    and "\<not> isl (fst (design s ftype btype ord alpha1 alpha2 rip blt pw)) \<Longrightarrow>
         snd (design s ftype btype ord alpha1 alpha2 rip blt pw)
           = snd (design MkFilter_init ftype btype ord alpha1 alpha2 rip blt pw)"
proof -
  define a2 where "a2 = (case alpha2 of Some a \<Rightarrow> a | None \<Rightarrow> alpha1)"
  let ?upd = "\<lambda>s. s\<lparr>filter_type := Some ftype, band_type := Some btype, order := ord,
                       raw_alpha1 := alpha1, raw_alpha2 := a2,
                       chebrip := rip, use_blt := blt, prewarp := pw\<rparr>"
  let ?F = "\<lambda>s. expand_poly ((if blt then compute_z_blt else compute_z_mzt)
                            (normalize_splane (prewarp_frequencies s)))"
  have des: "design u ftype btype ord alpha1 alpha2 rip blt pw =
      (case compute_s_plane (?upd u) of
         (Some e, u1) \<Rightarrow> (Inl e, u1)
       | (None, u1) \<Rightarrow> (Inr (the (xcoeffs (?F u1)), the (ycoeffs (?F u1))), ?F u1))" for u
    by (cases blt) (simp_all add: design_def Let_def a2_def split: prod.splits option.splits)
  obtain r s1 where cs: "compute_s_plane (?upd s) = (r, s1)"
    by (cases "compute_s_plane (?upd s)")
  obtain r' t1 where ct: "compute_s_plane (?upd MkFilter_init) = (r', t1)"
    by (cases "compute_s_plane (?upd MkFilter_init)")
  have r: "r' = r"
    using compute_s_plane_cong(1) [of "?upd MkFilter_init" "?upd s"] cs ct by simp
  from compute_s_plane_frame [OF cs] obtain ps where
    s1: "s1 = (?upd s)\<lparr>splane := (splane (?upd s))\<lparr>poles := ps\<rparr>\<rparr>" by blast
  from compute_s_plane_frame [OF ct] obtain qs where
    t1: "t1 = (?upd MkFilter_init)\<lparr>splane := (splane (?upd MkFilter_init))\<lparr>poles := qs\<rparr>\<rparr>"
    by blast
  have F: "?F s1 = ?F t1" if "r = None"
  proof -
    have "poles (splane t1) = poles (splane s1)"
      using compute_s_plane_cong(2) [of "?upd MkFilter_init" "?upd s"] cs ct that by simp
    then have "qs = ps" by (simp add: s1 t1)
    then show ?thesis
      unfolding s1 t1 using pipeline_init [OF assms, where s = s and blt = blt and ftype = ftype and ord = ord
          and ?a1.0 = alpha1 and ?a2.0 = a2 and rip = rip and pw = pw and ps = ps]
      by simp
  qed
  show "fst (design s ftype btype ord alpha1 alpha2 rip blt pw)
           = fst (design MkFilter_init ftype btype ord alpha1 alpha2 rip blt pw)"
    using F by (cases r) (simp_all add: des cs ct r)
  show "snd (design s ftype btype ord alpha1 alpha2 rip blt pw)
           = snd (design MkFilter_init ftype btype ord alpha1 alpha2 rip blt pw)"
    if "\<not> isl (fst (design s ftype btype ord alpha1 alpha2 rip blt pw))"
    using F that by (cases r) (simp_all add: des cs ct r)
qed

text \<open>
  Claim C8. \<open>design\<close> is deterministic: for each of the four band types, what a call
  returns depends on its arguments only, not on the object it is called on (fresh, or
  left by any earlier call), and after a successful call the whole object, with the
  three reference gains, is determined by the arguments.
\<close>

theorem design_deterministic:
  assumes "btype = ''Lp'' \<or> btype = ''Hp'' \<or> btype = ''Bp'' \<or> btype = ''Bs''"
  shows "fst (design s ftype btype ord alpha1 alpha2 rip blt pw)
           = fst (design t ftype btype ord alpha1 alpha2 rip blt pw)
       \<and> (\<not> isl (fst (design s ftype btype ord alpha1 alpha2 rip blt pw)) \<longrightarrow>
            snd (design s ftype btype ord alpha1 alpha2 rip blt pw)
              = snd (design t ftype btype ord alpha1 alpha2 rip blt pw))"
proof -
  have f: "fst (design s ftype btype ord alpha1 alpha2 rip blt pw)
           = fst (design t ftype btype ord alpha1 alpha2 rip blt pw)"
    using design_from_init(1) [OF assms, of s] design_from_init(1) [OF assms, of t] by simp
  moreover have "snd (design s ftype btype ord alpha1 alpha2 rip blt pw)
              = snd (design t ftype btype ord alpha1 alpha2 rip blt pw)"
    if "\<not> isl (fst (design s ftype btype ord alpha1 alpha2 rip blt pw))"
    using design_from_init(2) [OF assms, of s] design_from_init(2) [OF assms, of t] that f
    by simp
  ultimately show ?thesis by blast
qed

text \<open>
  The theorem for a fourth-order Butterworth lowpass, on a fresh object and on the object
  an earlier highpass design has left.
\<close>

theorem design_deterministic_witness:
  "fst (design MkFilter_init ''Bu'' ''Lp'' 4 (1 / 10) None (- 1) True True)
     = fst (design (snd (design MkFilter_init ''Bu'' ''Hp'' 3 (1 / 5) None (- 1) True True))
              ''Bu'' ''Lp'' 4 (1 / 10) None (- 1) True True)"
  using design_deterministic [of "''Lp''" MkFilter_init "''Bu''" 4 "1 / 10" None "- 1" True True
          "snd (design MkFilter_init ''Bu'' ''Hp'' 3 (1 / 5) None (- 1) True True)"]
  by simp

section \<open>Pole locations in exact arithmetic\<close>

text \<open>
  The lemmas of this section are facts of the exact model only. The program computes
  in doubles; rounding can put a pole on the unit circle (for a very small corner
  \<open>2.0 + s\<close> and \<open>2.0 - s\<close> both round to \<open>2.0\<close>) or produce \<open>nan\<close>, so a strict bound
  on the magnitudes the program returns is not a statement of this model.
\<close>

lemma blt_stable:
  assumes "Re s < 0"
  shows "cmod ((2 + s) / (2 - s)) < 1"
proof -
  have ne: "2 - s \<noteq> 0"
  proof
    assume "2 - s = 0"
    then have "Re (2 - s) = 0" by simp
    with assms show False by simp
  qed
  have "(cmod (2 + s))\<^sup>2 < (cmod (2 - s))\<^sup>2"
    unfolding cmod_power2 using assms by (simp add: power2_eq_square algebra_simps)
  then have "cmod (2 + s) < cmod (2 - s)"
    by (rule power2_less_imp_less) simp
  then show ?thesis using ne by (simp add: norm_divide)
qed

lemma mzt_stable:
  assumes "Re s < 0"
  shows "cmod (exp s) < 1"
  using assms by (simp add: norm_exp_eq_Re)

lemma lowpass_lhp:
  assumes "Re p < 0" "0 < w"
  shows "Re (p * of_real w) < 0"
  using assms by (simp add: mult_neg_pos)

lemma highpass_lhp:
  assumes "Re p < 0" "0 < w"
  shows "Re (of_real w / p) < 0"
proof -
  have "p \<noteq> 0" using assms(1) by auto
  then have "0 < (cmod p)\<^sup>2" by simp
  moreover have "w * Re p < 0" using assms by (simp add: mult_pos_neg)
  ultimately show ?thesis
    by (simp add: Re_divide' divide_neg_pos)
qed

lemma band_pair_lhp:
  assumes "Re hba < 0" "0 < w0" "s \<in> set (band_pair w0 hba)"
  shows "Re s < 0"
proof -
  define t where "t = csqrt (1 - (of_real w0 / hba)\<^sup>2)"
  define a where "a = hba * (1 + t)"
  define b where "b = hba * (1 - t)"
  have h: "hba \<noteq> 0" using assms(1) by auto
  have t2: "t\<^sup>2 = 1 - (of_real w0 / hba)\<^sup>2" by (simp add: t_def)
  have "a * b = hba\<^sup>2 * (1 - t\<^sup>2)"
    by (simp add: a_def b_def power2_eq_square algebra_simps)
  also have "\<dots> = (of_real w0)\<^sup>2"
    using h by (simp add: t2 power_divide)
  finally have prod: "a * b = of_real (w0\<^sup>2)" by simp
  have sum: "a + b = 2 * hba" by (simp add: a_def b_def algebra_simps)
  have w: "0 < w0\<^sup>2" using assms(2) by simp
  have a0: "a \<noteq> 0"
  proof
    assume "a = 0"
    with prod have "of_real (w0\<^sup>2) = (0::complex)" by simp
    then have "w0\<^sup>2 = 0" by (simp only: of_real_eq_0_iff)
    with w show False by simp
  qed
  have "b = of_real (w0\<^sup>2) / a" using prod a0 by (simp add: field_simps)
  then have Reb: "Re b = w0\<^sup>2 * Re a / (cmod a)\<^sup>2"
    by (simp add: Re_divide')
  define c where "c = w0\<^sup>2 / (cmod a)\<^sup>2"
  have c: "0 < c" using w a0 by (simp add: c_def)
  have Reb': "Re b = c * Re a" by (simp add: Reb c_def)
  have "Re a + Re b < 0"
  proof -
    have "Re (a + b) = 2 * Re hba" by (simp add: sum)
    then show ?thesis using assms(1) by simp
  qed
  then have "(1 + c) * Re a < 0" by (simp add: Reb' algebra_simps)
  moreover have "0 < 1 + c" using c by simp
  ultimately have Rea: "Re a < 0"
    by (simp add: mult_less_0_iff)
  then have "Re b < 0" using c by (simp add: Reb' mult_pos_neg)
  moreover from assms(3) have "s = a \<or> s = b"
    by (simp add: band_pair_def Let_def a_def b_def t_def)
  ultimately show ?thesis using Rea by blast
qed

lemma TWOPI_pos: "0 < TWOPI"
  by (simp add: TWOPI_def PI_def)

lemma prewarp_frequencies_pos:
  assumes "0 < raw_alpha1 self" "raw_alpha1 self < 1 / 2"
  shows "0 < warped_alpha1 (prewarp_frequencies self)"
proof -
  have "0 < tan (pi * raw_alpha1 self)"
    by (rule tan_gt_zero) (use assms in \<open>simp_all add: field_simps\<close>)
  then show ?thesis using assms by (simp add: prewarp_frequencies_def PI_def)
qed

lemma prewarp_frequencies_mono:
  assumes "0 < raw_alpha1 self" "raw_alpha1 self < raw_alpha2 self" "raw_alpha2 self < 1 / 2"
  shows "warped_alpha1 (prewarp_frequencies self) < warped_alpha2 (prewarp_frequencies self)"
proof -
  have "tan (pi * raw_alpha1 self) < tan (pi * raw_alpha2 self)"
  proof (rule tan_monotone)
    have "0 < pi * raw_alpha1 self" using assms by simp
    then show "- (pi / 2) < pi * raw_alpha1 self" using pi_gt_zero by linarith
    show "pi * raw_alpha1 self < pi * raw_alpha2 self" using assms by simp
    show "pi * raw_alpha2 self < pi / 2" using assms by (simp add: field_simps)
  qed
  then show ?thesis
    using assms by (simp add: prewarp_frequencies_def PI_def divide_strict_right_mono)
qed

lemma normalize_splane_lhp:
  assumes lhp: "\<forall>p \<in> set (poles (splane self)). Re p < 0"
    and b: "band_type self = Some b" "b = ''Lp'' \<or> b = ''Hp'' \<or> b = ''Bp'' \<or> b = ''Bs''"
    and w1: "0 < warped_alpha1 self"
    and w2: "b = ''Bp'' \<or> b = ''Bs'' \<longrightarrow> warped_alpha1 self < warped_alpha2 self"
  shows "\<forall>q \<in> set (poles (splane (normalize_splane self))). Re q < 0"
proof
  fix q assume q: "q \<in> set (poles (splane (normalize_splane self)))"
  let ?w1 = "TWOPI * warped_alpha1 self" and ?w2 = "TWOPI * warped_alpha2 self"
  have w1': "0 < ?w1" using w1 TWOPI_pos by simp
  consider "b = ''Lp''" | "b = ''Hp''" | "b = ''Bp''" | "b = ''Bs''" using b(2) by blast
  then show "Re q < 0"
  proof cases
    case 1
    with q b(1) obtain p where p: "p \<in> set (poles (splane self))" "q = p * of_real ?w1"
      by (auto simp: normalize_Lp)
    from lhp p(1) have "Re p < 0" by blast
    then have "Re (p * of_real ?w1) < 0" using w1' by (rule lowpass_lhp)
    then show ?thesis by (simp only: p(2))
  next
    case 2
    with q b(1) obtain p where p: "p \<in> set (poles (splane self))" "q = of_real ?w1 / p"
      by (auto simp: normalize_Hp)
    from lhp p(1) have "Re p < 0" by blast
    then have "Re (of_real ?w1 / p) < 0" using w1' by (rule highpass_lhp)
    then show ?thesis by (simp only: p(2))
  next
    case 3
    with w2 have "?w1 < ?w2" using TWOPI_pos by simp
    then have bw: "0 < ?w2 - ?w1" and w0: "0 < sqrt (?w1 * ?w2)" using w1' by simp_all
    from 3 q b(1) obtain p where p: "p \<in> set (poles (splane self))"
      "q \<in> set (band_pair (sqrt (?w1 * ?w2)) (0.5 * p * of_real (?w2 - ?w1)))"
      by (auto simp: normalize_Bp)
    from lhp p(1) have "Re p < 0" by blast
    then have "Re (p * of_real (0.5 * (?w2 - ?w1))) < 0"
      using bw by (intro lowpass_lhp) simp_all
    then have "Re (0.5 * p * of_real (?w2 - ?w1)) < 0" by (simp add: mult.commute)
    then show ?thesis using w0 p(2) by (rule band_pair_lhp)
  next
    case 4
    with w2 have "?w1 < ?w2" using TWOPI_pos by simp
    then have bw: "0 < ?w2 - ?w1" and w0: "0 < sqrt (?w1 * ?w2)" using w1' by simp_all
    from 4 q b(1) obtain p where p: "p \<in> set (poles (splane self))"
      "q \<in> set (band_pair (sqrt (?w1 * ?w2)) (0.5 * of_real (?w2 - ?w1) / p))"
      by (auto simp: normalize_Bs)
    from lhp p(1) have "Re p < 0" by blast
    then have "Re (of_real (0.5 * (?w2 - ?w1)) / p) < 0"
      using bw by (intro highpass_lhp) simp_all
    then have "Re (0.5 * of_real (?w2 - ?w1) / p) < 0" by simp
    then show ?thesis using w0 p(2) by (rule band_pair_lhp)
  qed
qed

lemma compute_z_stable:
  assumes "\<forall>p \<in> set (poles (splane self)). Re p < 0"
  shows "\<forall>z \<in> set (poles (zplane ((if blt then compute_z_blt else compute_z_mzt) self))).
           cmod z < 1"
proof
  fix z assume z: "z \<in> set (poles (zplane ((if blt then compute_z_blt else compute_z_mzt) self)))"
  show "cmod z < 1"
  proof (cases blt)
    case True
    with z obtain s where s: "s \<in> set (poles (splane self))" "z = (2 + s) / (2 - s)"
      by (auto simp: compute_z_blt_eq)
    from assms s(1) have "Re s < 0" by blast
    then have "cmod ((2 + s) / (2 - s)) < 1" by (rule blt_stable)
    then show ?thesis by (simp only: s(2))
  next
    case False
    with z obtain s where s: "s \<in> set (poles (splane self))" "z = exp s"
      by (auto simp: compute_z_mzt_eq)
    from assms s(1) have "Re s < 0" by blast
    then have "cmod (exp s) < 1" by (rule mzt_stable)
    then show ?thesis by (simp only: s(2))
  qed
qed

text \<open>
  In exact arithmetic: after a successful design run with family Butterworth or
  Chebyshev, one of the four band types, a first corner in \<open>(0, 0.5)\<close> and, for
  bandpass and bandstop, a second corner above the first and below \<open>0.5\<close>, every digital
  pole has magnitude strictly less than 1, under either mapping.
\<close>

lemma design_stable_exact:
  assumes d: "design self ftype btype ord alpha1 alpha2 rip blt pw = (Inr (xs, ys), self')"
    and ft: "ftype = ''Bu'' \<or> ftype = ''Ch''"
    and bt: "btype = ''Lp'' \<or> btype = ''Hp'' \<or> btype = ''Bp'' \<or> btype = ''Bs''"
    and a1: "0 < alpha1" "alpha1 < 1 / 2"
    and a2: "btype = ''Bp'' \<or> btype = ''Bs'' \<longrightarrow>
               (\<exists>a. alpha2 = Some a \<and> alpha1 < a \<and> a < 1 / 2)"
  shows "\<forall>z \<in> set (poles (zplane self')). cmod z < 1"
proof -
  let ?s0 = "self\<lparr>filter_type := Some ftype, band_type := Some btype, order := ord,
                       raw_alpha1 := alpha1,
                       raw_alpha2 := (case alpha2 of Some a \<Rightarrow> a | None \<Rightarrow> alpha1),
                       chebrip := rip, use_blt := blt, prewarp := pw\<rparr>"
  from d obtain s1 ps where
    c: "compute_s_plane ?s0 = (None, s1)"
    and s1: "s1 = self\<lparr>filter_type := Some ftype, band_type := Some btype, order := ord,
                       raw_alpha1 := alpha1,
                       raw_alpha2 := (case alpha2 of Some a \<Rightarrow> a | None \<Rightarrow> alpha1),
                       chebrip := rip, use_blt := blt, prewarp := pw,
                       splane := (splane self)\<lparr>poles := ps\<rparr>\<rparr>"
    and self': "self' = expand_poly ((if blt then compute_z_blt else compute_z_mzt)
                            (normalize_splane (prewarp_frequencies s1)))"
    by (rule design_InrE)
  let ?s2 = "prewarp_frequencies s1"
  have "filter_type ?s0 = Some ''Bu'' \<or> filter_type ?s0 = Some ''Ch''" using ft by simp
  then have "\<forall>p \<in> set (poles (splane s1)). Re p < 0"
    using compute_s_plane_lhp [OF c] by blast
  then have lhp: "\<forall>p \<in> set (poles (splane ?s2)). Re p < 0" by simp
  have b: "band_type ?s2 = Some btype" by (simp add: s1)
  have r1: "0 < raw_alpha1 s1" "raw_alpha1 s1 < 1 / 2" using a1 by (simp_all add: s1)
  have w1: "0 < warped_alpha1 ?s2" using r1 by (rule prewarp_frequencies_pos)
  have w2: "btype = ''Bp'' \<or> btype = ''Bs'' \<longrightarrow> warped_alpha1 ?s2 < warped_alpha2 ?s2"
  proof
    assume "btype = ''Bp'' \<or> btype = ''Bs''"
    with a2 obtain a where a: "alpha2 = Some a" "alpha1 < a" "a < 1 / 2" by blast
    then have "raw_alpha1 s1 < raw_alpha2 s1" "raw_alpha2 s1 < 1 / 2" by (simp_all add: s1)
    with r1(1) show "warped_alpha1 ?s2 < warped_alpha2 ?s2"
      by (rule prewarp_frequencies_mono)
  qed
  have "\<forall>q \<in> set (poles (splane (normalize_splane ?s2))). Re q < 0"
    using lhp b bt w1 w2 by (rule normalize_splane_lhp)
  then have "\<forall>z \<in> set (poles (zplane ((if blt then compute_z_blt else compute_z_mzt)
                 (normalize_splane ?s2)))). cmod z < 1"
    by (rule compute_z_stable)
  then show ?thesis by (simp add: self' expand_poly_coeffs)
qed

lemma butterworth_exact_1: "butterworth_exact 1 [] = [- 1]"
proof -
  have "[0..<nat (2 * 1)] = [0, 1]" by (simp add: upt_rec)
  then show ?thesis
    by (simp add: butterworth_exact_def theta_exact_def PI_def Let_def)
qed

lemma band_pair_first:
  assumes "0 < h"
  shows "h \<le> Re (band_pair w0 (of_real h) ! 0)"
proof -
  define t where "t = csqrt (1 - (of_real w0 / of_real h)\<^sup>2)"
  have t: "0 \<le> Re t" unfolding t_def by (rule Re_csqrt)
  have "band_pair w0 (of_real h) ! 0 = of_real h * (1 + t)"
    unfolding band_pair_def Let_def t_def by simp
  then have "Re (band_pair w0 (of_real h) ! 0) = h * (1 + Re t)"
    by simp
  moreover have "h * 1 \<le> h * (1 + Re t)"
    using assms t by (intro mult_left_mono) simp_all
  ultimately show ?thesis by simp
qed

lemma bandpass_mzt_first_pole:
  assumes b: "band_type s = Some ''Bp''"
    and p: "poles (splane s) = [- 1]"
    and w: "warped_alpha2 s < warped_alpha1 s"
  shows "1 < cmod (poles (zplane (compute_z_mzt (normalize_splane s))) ! 0)"
proof -
  define W1 where "W1 = TWOPI * warped_alpha1 s"
  define W2 where "W2 = TWOPI * warped_alpha2 s"
  define h where "h = (W1 - W2) / 2"
  have h: "0 < h" using w TWOPI_pos by (simp add: h_def W1_def W2_def)
  define f where
    "f = (\<lambda>pole. band_pair (sqrt (W1 * W2)) (0.5 * pole * complex_of_real (W2 - W1)))"
  have "poles (splane (normalize_splane s)) = concat (map f (poles (splane s)))"
    by (simp add: normalize_Bp [OF b] f_def W1_def W2_def)
  also have "\<dots> = concat (map f [- 1])" by (simp only: p)
  also have "\<dots> = f (- 1)" by simp
  also have "\<dots> = band_pair (sqrt (W1 * W2)) (of_real h)"
    unfolding f_def
    by (rule arg_cong [where f = "band_pair (sqrt (W1 * W2))"]) (simp add: h_def field_simps)
  finally have np:
    "poles (splane (normalize_splane s)) = band_pair (sqrt (W1 * W2)) (of_real h)" .
  have "poles (zplane (compute_z_mzt (normalize_splane s)))
        = map exp (poles (splane (normalize_splane s)))"
    by (simp add: compute_z_mzt_eq)
  then have "poles (zplane (compute_z_mzt (normalize_splane s))) ! 0
        = exp (band_pair (sqrt (W1 * W2)) (of_real h) ! 0)"
    by (simp only: np) (simp add: nth_map)
  then have "cmod (poles (zplane (compute_z_mzt (normalize_splane s))) ! 0)
        = exp (Re (band_pair (sqrt (W1 * W2)) (of_real h) ! 0))"
    by (simp only: norm_exp_eq_Re)
  moreover have "0 < Re (band_pair (sqrt (W1 * W2)) (of_real h) ! 0)"
    using band_pair_first [OF h, of "sqrt (W1 * W2)"] h by linarith
  ultimately show ?thesis by (simp only: one_less_exp_iff)
qed


lemma first_order_butterworth_prototype:
  assumes "filter_type s = Some ''Bu''" "order s = 1"
  shows "compute_s_plane s = (None, s\<lparr>splane := (splane s)\<lparr>poles := [- 1]\<rparr>\<rparr>)"
proof -
  have "real_of_int (2 * 1) < float_overflow" by (rule float_overflow_large) simp
  then have "butterworth_loop 1 [] = Inr [- 1]"
    by (simp only: butterworth_loop_ok butterworth_exact_1)
  with assms show ?thesis by (simp add: compute_s_plane_def Let_def)
qed

text \<open>
  Nothing orders the two corners of a bandpass. A first-order Butterworth bandpass whose
  corners, both in \<open>(0, 0.5)\<close>, are given in descending order (0.3, then 0.2) succeeds
  under the matched z-transform, and its first digital pole lies outside the unit
  circle: the bandwidth \<open>w2 - w1\<close> is negative and the band transformation moves the
  poles to the right half-plane.
\<close>

lemma design_descending_corners_unstable:
  "\<not> isl (fst (design MkFilter_init ''Bu'' ''Bp'' 1 (3 / 10) (Some (1 / 5)) (- 1) False True))
   \<and> 1 < cmod (poles (zplane (snd
           (design MkFilter_init ''Bu'' ''Bp'' 1 (3 / 10) (Some (1 / 5)) (- 1) False True))) ! 0)"
proof -
  define s0 where "s0 = MkFilter_init\<lparr>filter_type := Some ''Bu'', band_type := Some ''Bp'',
                       order := 1, raw_alpha1 := 3 / 10,
                       raw_alpha2 := (case Some (1 / 5) of Some a \<Rightarrow> a | None \<Rightarrow> 3 / 10),
                       chebrip := - 1, use_blt := False, prewarp := True\<rparr>"
  define s1 where "s1 = s0\<lparr>splane := (splane s0)\<lparr>poles := [- 1]\<rparr>\<rparr>"
  define s2 where "s2 = prewarp_frequencies s1"
  obtain xs ys self' where
    d: "design MkFilter_init ''Bu'' ''Bp'' 1 (3 / 10) (Some (1 / 5)) (- 1) False True
          = (Inr (xs, ys), self')"
    using design_Bu_succeeds by fastforce
  then obtain t1 ps where
    c: "compute_s_plane s0 = (None, t1)"
    and self': "self' = expand_poly ((if False then compute_z_blt else compute_z_mzt)
                            (normalize_splane (prewarp_frequencies t1)))"
    unfolding s0_def by (rule design_InrE)
  have "compute_s_plane s0 = (None, s1)"
    unfolding s1_def by (rule first_order_butterworth_prototype) (simp_all add: s0_def)
  with c have "t1 = s1" by simp
  with self' have self'': "self' = expand_poly (compute_z_mzt (normalize_splane s2))"
    by (simp add: s2_def)
  have "band_type s2 = Some ''Bp''" by (simp add: s2_def s1_def s0_def)
  moreover have "poles (splane s2) = [- 1]" by (simp add: s2_def s1_def)
  moreover have "warped_alpha2 s2 < warped_alpha1 s2"
    by (simp add: s2_def s1_def s0_def prewarp_frequencies_def)
  ultimately have "1 < cmod (poles (zplane (compute_z_mzt (normalize_splane s2))) ! 0)"
    by (rule bandpass_mzt_first_pole)
  then have "1 < cmod (poles (zplane self') ! 0)"
    by (simp only: self'' expand_poly_coeffs)
  then show ?thesis by (simp add: d)
qed

end
